theory Spec2Isabelle
  imports Complex_Main "HOL-Library.Sublist"
begin

section \<open>Data model of the saga orchestrator (orchestrator/main.go)\<close>

text \<open>
  Go strings are modelled as \<open>string\<close>, \<open>float64\<close> amounts as \<open>real\<close> (the code only
  compares an amount with zero and passes it on), and \<open>time.Time\<close> as a datatype whose
  constructor \<open>ZeroTime\<close> is the zero value of the Go type (an unset timestamp) and
  \<open>At n\<close> is a reading of the clock.
\<close>

datatype Time = ZeroTime | At nat

abbreviation TransactionStatusPending :: string where
  "TransactionStatusPending \<equiv> ''PENDING''"

abbreviation TransactionStatusCompleted :: string where
  "TransactionStatusCompleted \<equiv> ''COMPLETED''"

abbreviation TransactionStatusFailed :: string where
  "TransactionStatusFailed \<equiv> ''FAILED''"

record Step =
  step_Name :: string
  step_Status :: string
  step_StartedAt :: Time
  step_EndedAt :: Time
  step_Error :: string

record Transaction =
  ID :: string
  OrderID :: string
  CustomerID :: string
  Amount :: real
  Address :: string
  Status :: string
  CreatedAt :: Time
  CompletedAt :: Time
  FailureReason :: string
  Steps :: "Step list"

record Item =
  item_ID :: string
  item_Name :: string
  item_Price :: real
  item_Quantity :: int

record CreateOrderRequest =
  req_CustomerID :: string
  req_Items :: "Item list"
  req_Amount :: real
  req_Address :: string

text \<open>
  The three participant envelopes (\<open>OrderResponse\<close>, \<open>PaymentResponse\<close>,
  \<open>ShippingResponse\<close>) share the fields the orchestrator reads: the success flag, the
  message and the order id.
\<close>

record Response =
  resp_Success :: bool
  resp_Message :: string
  resp_OrderID :: string

text \<open>The zero value of the struct, which a Go map returns for a missing key.\<close>

definition zeroTransaction :: Transaction where
  "zeroTransaction =
     \<lparr>ID = [], OrderID = [], CustomerID = [], Amount = 0, Address = [], Status = [],
      CreatedAt = ZeroTime, CompletedAt = ZeroTime, FailureReason = [], Steps = []\<rparr>"

subsection \<open>Outbound calls and their outcomes\<close>

text \<open>
  One constructor per endpoint the orchestrator posts to, carrying the payload it sends.
\<close>

datatype request =
    CreateOrderReq string "Item list" real
  | ProcessPaymentReq string real
  | StartShippingReq string string
  | CancelOrderReq string
  | RefundPaymentReq string
  | CancelShippingReq string

text \<open>
  What an attempted call can come to, one constructor per check of the source:
  \<open>json.Marshal\<close> fails (nothing is sent), \<open>http.Post\<close> fails, \<open>ioutil.ReadAll\<close> fails,
  \<open>json.Unmarshal\<close> fails, or an envelope is parsed. Each error carries its text.
\<close>

datatype outcome =
    MarshalError string
  | PostError string
  | ReadError string
  | UnmarshalError string
  | Reply Response

text \<open>
  The surroundings of a saga run: how the participants answer each request, and the
  library function \<open>fmt.Errorf\<close> applied to a message with no further arguments
  (it interprets the message as a format string, so its result is left open).
\<close>

record env =
  respond :: "request \<Rightarrow> outcome"
  Errorf :: "string \<Rightarrow> string"

subsection \<open>The shared state\<close>

text \<open>
  The package variables \<open>transactions\<close> and \<open>nextID\<close>, the clock that \<open>time.Now\<close>
  reads (every reading advances it), and the sequence of requests handed to \<open>http.Post\<close>
  so far. The counter is incremented once for every transaction stored and no transaction
  is ever deleted, so it is modelled as an unbounded integer.
\<close>

record world =
  transactions :: "string \<rightharpoonup> Transaction"
  nextID :: int
  clock :: nat
  posted :: "request list"

section \<open>The step ledger and the transaction status\<close>

definition addStep :: "string \<Rightarrow> string \<Rightarrow> world \<Rightarrow> world" where
  "addStep transactionID stepName w =
     (case transactions w transactionID of
        None \<Rightarrow> w
      | Some transaction \<Rightarrow>
          (let step = \<lparr>step_Name = stepName, step_Status = TransactionStatusPending,
                       step_StartedAt = At (clock w), step_EndedAt = ZeroTime,
                       step_Error = []\<rparr>
           in w\<lparr>transactions := (transactions w)(transactionID \<mapsto>
                    transaction\<lparr>Steps := Steps transaction @ [step]\<rparr>),
                 clock := Suc (clock w)\<rparr>))"

text \<open>
  The loop of \<open>updateStepStatus\<close>: the first step whose name matches is updated and the
  loop breaks.
\<close>

fun updateStepLoop :: "string \<Rightarrow> bool \<Rightarrow> string \<Rightarrow> Time \<Rightarrow> Step list \<Rightarrow> Step list" where
  "updateStepLoop stepName success errorMsg now [] = []"
| "updateStepLoop stepName success errorMsg now (step # rest) =
     (if step_Name step = stepName then
        (if success then step\<lparr>step_Status := TransactionStatusCompleted, step_EndedAt := now\<rparr>
         else step\<lparr>step_Status := TransactionStatusFailed, step_Error := errorMsg,
                   step_EndedAt := now\<rparr>) # rest
      else step # updateStepLoop stepName success errorMsg now rest)"

definition updateStepStatus :: "string \<Rightarrow> string \<Rightarrow> bool \<Rightarrow> string \<Rightarrow> world \<Rightarrow> world" where
  "updateStepStatus transactionID stepName success errorMsg w =
     (case transactions w transactionID of
        None \<Rightarrow> w
      | Some transaction \<Rightarrow>
          w\<lparr>transactions := (transactions w)(transactionID \<mapsto>
               transaction\<lparr>Steps :=
                 updateStepLoop stepName success errorMsg (At (clock w)) (Steps transaction)\<rparr>),
            clock := (if stepName \<in> set (map step_Name (Steps transaction))
                      then Suc (clock w) else clock w)\<rparr>)"

definition updateTransactionStatus :: "string \<Rightarrow> string \<Rightarrow> string \<Rightarrow> world \<Rightarrow> world" where
  "updateTransactionStatus transactionID status failureReason w =
     (case transactions w transactionID of
        None \<Rightarrow> w
      | Some transaction \<Rightarrow>
          (let transaction1 = transaction\<lparr>Status := status\<rparr>;
               transaction2 =
                 (if status = TransactionStatusCompleted
                  then transaction1\<lparr>CompletedAt := At (clock w)\<rparr>
                  else if status = TransactionStatusFailed
                  then transaction1\<lparr>FailureReason := failureReason,
                                     CompletedAt := At (clock w)\<rparr>
                  else transaction1)
           in w\<lparr>transactions := (transactions w)(transactionID \<mapsto> transaction2),
                 clock := (if status = TransactionStatusCompleted
                              \<or> status = TransactionStatusFailed
                           then Suc (clock w) else clock w)\<rparr>))"

section \<open>Participant calls\<close>

text \<open>\<open>http.Post\<close>: the request leaves the orchestrator.\<close>

definition httpPost :: "request \<Rightarrow> world \<Rightarrow> world" where
  "httpPost call w = w\<lparr>posted := posted w @ [call]\<rparr>"

text \<open>
  \<open>createOrder\<close> returns \<open>(string, error)\<close>: \<open>Inl\<close> carries the text of the error,
  \<open>Inr\<close> the order id.
\<close>

definition createOrder ::
  "env \<Rightarrow> string \<Rightarrow> CreateOrderRequest \<Rightarrow> world \<Rightarrow> (string + string) \<times> world" where
  "createOrder e transactionID req w =
     (let w1 = addStep transactionID ''CREATE_ORDER'' w;
          call = CreateOrderReq (req_CustomerID req) (req_Items req) (req_Amount req)
      in case respond e call of
           MarshalError err \<Rightarrow>
             (Inl err, updateStepStatus transactionID ''CREATE_ORDER'' False err w1)
         | PostError err \<Rightarrow>
             (Inl err, updateStepStatus transactionID ''CREATE_ORDER'' False err
                         (httpPost call w1))
         | ReadError err \<Rightarrow>
             (Inl err, updateStepStatus transactionID ''CREATE_ORDER'' False err
                         (httpPost call w1))
         | UnmarshalError err \<Rightarrow>
             (Inl err, updateStepStatus transactionID ''CREATE_ORDER'' False err
                         (httpPost call w1))
         | Reply orderResp \<Rightarrow>
             (if \<not> resp_Success orderResp
              then (Inl (Errorf e (resp_Message orderResp)),
                    updateStepStatus transactionID ''CREATE_ORDER'' False
                      (resp_Message orderResp) (httpPost call w1))
              else (Inr (resp_OrderID orderResp),
                    updateStepStatus transactionID ''CREATE_ORDER'' True []
                      (httpPost call w1))))"

text \<open>\<open>processPayment\<close> and \<open>startShipping\<close> return an \<open>error\<close>: \<open>None\<close> is \<open>nil\<close>.\<close>

definition processPayment ::
  "env \<Rightarrow> string \<Rightarrow> string \<Rightarrow> real \<Rightarrow> world \<Rightarrow> string option \<times> world" where
  "processPayment e transactionID orderID amount w =
     (let w1 = addStep transactionID ''PROCESS_PAYMENT'' w;
          call = ProcessPaymentReq orderID amount
      in case respond e call of
           MarshalError err \<Rightarrow>
             (Some err, updateStepStatus transactionID ''PROCESS_PAYMENT'' False err w1)
         | PostError err \<Rightarrow>
             (Some err, updateStepStatus transactionID ''PROCESS_PAYMENT'' False err
                          (httpPost call w1))
         | ReadError err \<Rightarrow>
             (Some err, updateStepStatus transactionID ''PROCESS_PAYMENT'' False err
                          (httpPost call w1))
         | UnmarshalError err \<Rightarrow>
             (Some err, updateStepStatus transactionID ''PROCESS_PAYMENT'' False err
                          (httpPost call w1))
         | Reply paymentResp \<Rightarrow>
             (if \<not> resp_Success paymentResp
              then (Some (Errorf e (resp_Message paymentResp)),
                    updateStepStatus transactionID ''PROCESS_PAYMENT'' False
                      (resp_Message paymentResp) (httpPost call w1))
              else (None,
                    updateStepStatus transactionID ''PROCESS_PAYMENT'' True []
                      (httpPost call w1))))"

definition startShipping ::
  "env \<Rightarrow> string \<Rightarrow> string \<Rightarrow> string \<Rightarrow> world \<Rightarrow> string option \<times> world" where
  "startShipping e transactionID orderID address w =
     (let w1 = addStep transactionID ''START_SHIPPING'' w;
          call = StartShippingReq orderID address
      in case respond e call of
           MarshalError err \<Rightarrow>
             (Some err, updateStepStatus transactionID ''START_SHIPPING'' False err w1)
         | PostError err \<Rightarrow>
             (Some err, updateStepStatus transactionID ''START_SHIPPING'' False err
                          (httpPost call w1))
         | ReadError err \<Rightarrow>
             (Some err, updateStepStatus transactionID ''START_SHIPPING'' False err
                          (httpPost call w1))
         | UnmarshalError err \<Rightarrow>
             (Some err, updateStepStatus transactionID ''START_SHIPPING'' False err
                          (httpPost call w1))
         | Reply shippingResp \<Rightarrow>
             (if \<not> resp_Success shippingResp
              then (Some (Errorf e (resp_Message shippingResp)),
                    updateStepStatus transactionID ''START_SHIPPING'' False
                      (resp_Message shippingResp) (httpPost call w1))
              else (None,
                    updateStepStatus transactionID ''START_SHIPPING'' True []
                      (httpPost call w1))))"

text \<open>
  The compensating calls return nothing. After \<open>http.Post\<close> has returned a response
  they close its body without reading it, so the last three outcomes are one case.
\<close>

definition cancelOrder :: "env \<Rightarrow> string \<Rightarrow> string \<Rightarrow> world \<Rightarrow> world" where
  "cancelOrder e transactionID orderID w =
     (let w1 = addStep transactionID ''CANCEL_ORDER'' w;
          call = CancelOrderReq orderID
      in case respond e call of
           MarshalError err \<Rightarrow> updateStepStatus transactionID ''CANCEL_ORDER'' False err w1
         | PostError err \<Rightarrow>
             updateStepStatus transactionID ''CANCEL_ORDER'' False err (httpPost call w1)
         | _ \<Rightarrow> updateStepStatus transactionID ''CANCEL_ORDER'' True [] (httpPost call w1))"

definition refundPayment :: "env \<Rightarrow> string \<Rightarrow> string \<Rightarrow> world \<Rightarrow> world" where
  "refundPayment e transactionID orderID w =
     (let w1 = addStep transactionID ''REFUND_PAYMENT'' w;
          call = RefundPaymentReq orderID
      in case respond e call of
           MarshalError err \<Rightarrow> updateStepStatus transactionID ''REFUND_PAYMENT'' False err w1
         | PostError err \<Rightarrow>
             updateStepStatus transactionID ''REFUND_PAYMENT'' False err (httpPost call w1)
         | _ \<Rightarrow> updateStepStatus transactionID ''REFUND_PAYMENT'' True [] (httpPost call w1))"

definition cancelShipping :: "env \<Rightarrow> string \<Rightarrow> string \<Rightarrow> world \<Rightarrow> world" where
  "cancelShipping e transactionID orderID w =
     (let w1 = addStep transactionID ''CANCEL_SHIPPING'' w;
          call = CancelShippingReq orderID
      in case respond e call of
           MarshalError err \<Rightarrow> updateStepStatus transactionID ''CANCEL_SHIPPING'' False err w1
         | PostError err \<Rightarrow>
             updateStepStatus transactionID ''CANCEL_SHIPPING'' False err (httpPost call w1)
         | _ \<Rightarrow> updateStepStatus transactionID ''CANCEL_SHIPPING'' True [] (httpPost call w1))"

section \<open>The saga executor\<close>

text \<open>
  The critical section of \<open>executeSaga\<close> that records the order id. Reading a missing
  key of a Go map gives the zero value, which is then stored under that key.
\<close>

definition recordOrderID :: "string \<Rightarrow> string \<Rightarrow> world \<Rightarrow> world" where
  "recordOrderID transactionID orderID w =
     (let transaction = (case transactions w transactionID of
                           None \<Rightarrow> zeroTransaction
                         | Some t \<Rightarrow> t)
      in w\<lparr>transactions := (transactions w)(transactionID \<mapsto>
               transaction\<lparr>OrderID := orderID\<rparr>)\<rparr>)"

definition executeSaga :: "env \<Rightarrow> string \<Rightarrow> CreateOrderRequest \<Rightarrow> world \<Rightarrow> world" where
  "executeSaga e transactionID req w =
     (case createOrder e transactionID req w of
        (Inl err, w1) \<Rightarrow>
          updateTransactionStatus transactionID TransactionStatusFailed
            (''Failed to create order: '' @ err) w1
      | (Inr orderID, w1) \<Rightarrow>
          (let w2 = recordOrderID transactionID orderID w1
           in case processPayment e transactionID orderID (req_Amount req) w2 of
                (Some err, w3) \<Rightarrow>
                  updateTransactionStatus transactionID TransactionStatusFailed
                    (''Failed to process payment: '' @ err)
                    (cancelOrder e transactionID orderID w3)
              | (None, w3) \<Rightarrow>
                  (case startShipping e transactionID orderID (req_Address req) w3 of
                     (Some err, w4) \<Rightarrow>
                       updateTransactionStatus transactionID TransactionStatusFailed
                         (''Failed to start shipping: '' @ err)
                         (cancelOrder e transactionID orderID
                            (refundPayment e transactionID orderID w4))
                   | (None, w4) \<Rightarrow>
                       updateTransactionStatus transactionID TransactionStatusCompleted
                         [] w4)))"

section \<open>The coordinator's entry points\<close>

text \<open>\<open>%d\<close> of \<open>fmt.Sprintf\<close>: the decimal digits, with a minus sign below zero.\<close>

fun digits10 :: "nat \<Rightarrow> string" where
  "digits10 n =
     (if n < 10 then [char_of (48 + n)]
      else digits10 (n div 10) @ [char_of (48 + n mod 10)])"

definition itoa :: "int \<Rightarrow> string" where
  "itoa i = (if i < 0 then CHR ''-'' # digits10 (nat (- i)) else digits10 (nat i))"

text \<open>
  An incoming request: its method, and its body as \<open>json.Decode\<close> reads it
  (\<open>None\<close> when decoding fails).
\<close>

record httpRequest =
  http_Method :: string
  http_Body :: "CreateOrderRequest option"

record TransactionResponse =
  tr_Success :: bool
  tr_Message :: string
  tr_Transaction :: Transaction

text \<open>A reply is \<open>http.Error\<close> with a text and a status code, or an encoded envelope.\<close>

datatype httpResponse =
    HttpError string nat
  | Json nat TransactionResponse

abbreviation StatusBadRequest :: nat where "StatusBadRequest \<equiv> 400"
abbreviation StatusNotFound :: nat where "StatusNotFound \<equiv> 404"
abbreviation StatusMethodNotAllowed :: nat where "StatusMethodNotAllowed \<equiv> 405"
abbreviation StatusAccepted :: nat where "StatusAccepted \<equiv> 202"
abbreviation StatusOK :: nat where "StatusOK \<equiv> 200"

text \<open>
  The handler returns its reply, the saga task it starts with
  \<open>go executeSaga(transactionID, req)\<close> if any, and the state it leaves.
\<close>

definition createOrderSagaHandler ::
  "httpRequest \<Rightarrow> world \<Rightarrow> httpResponse \<times> (string \<times> CreateOrderRequest) option \<times> world" where
  "createOrderSagaHandler r w =
     (if http_Method r \<noteq> ''POST''
      then (HttpError ''Method not allowed'' StatusMethodNotAllowed, None, w)
      else case http_Body r of
        None \<Rightarrow> (HttpError ''Invalid request body'' StatusBadRequest, None, w)
      | Some req \<Rightarrow>
          if req_CustomerID req = []
          then (HttpError ''Customer ID is required'' StatusBadRequest, None, w)
          else if req_Amount req \<le> 0
          then (HttpError ''Amount must be greater than zero'' StatusBadRequest, None, w)
          else if req_Address req = []
          then (HttpError ''Shipping address is required'' StatusBadRequest, None, w)
          else
            (let transactionID = ''TRX-'' @ itoa (nextID w);
                 transaction =
                   \<lparr>ID = transactionID, OrderID = [], CustomerID = req_CustomerID req,
                    Amount = req_Amount req, Address = req_Address req,
                    Status = TransactionStatusPending, CreatedAt = At (clock w),
                    CompletedAt = ZeroTime, FailureReason = [], Steps = []\<rparr>;
                 w1 = w\<lparr>transactions := (transactions w)(transactionID \<mapsto> transaction),
                        nextID := nextID w + 1, clock := Suc (clock w)\<rparr>;
                 resp = \<lparr>tr_Success = True,
                         tr_Message = ''Transaction initiated successfully'',
                         tr_Transaction = transaction\<rparr>
             in (Json StatusAccepted resp, Some (transactionID, req), w1)))"

definition transactionStatusHandler :: "string \<Rightarrow> string \<Rightarrow> world \<Rightarrow> httpResponse" where
  "transactionStatusHandler method transactionID w =
     (if method \<noteq> ''GET''
      then HttpError ''Method not allowed'' StatusMethodNotAllowed
      else if transactionID = []
      then HttpError ''Transaction ID is required'' StatusBadRequest
      else case transactions w transactionID of
        None \<Rightarrow> HttpError ''Transaction not found'' StatusNotFound
      | Some transaction \<Rightarrow>
          Json StatusOK \<lparr>tr_Success = True, tr_Message = [], tr_Transaction = transaction\<rparr>)"

section \<open>Notions used to state the properties\<close>

text \<open>
  A forward call succeeds when every check of the source passes: an envelope is parsed
  and its flag is set. \<open>callError\<close> is the text of the \<open>error\<close> a failed forward call
  returns, \<open>ledgerError\<close> the text it writes into the ledger.
\<close>

definition succeeded :: "outcome \<Rightarrow> bool" where
  "succeeded oc = (case oc of Reply r \<Rightarrow> resp_Success r | _ \<Rightarrow> False)"

definition callError :: "env \<Rightarrow> outcome \<Rightarrow> string" where
  "callError e oc =
     (case oc of MarshalError x \<Rightarrow> x | PostError x \<Rightarrow> x | ReadError x \<Rightarrow> x
      | UnmarshalError x \<Rightarrow> x | Reply r \<Rightarrow> Errorf e (resp_Message r))"

definition ledgerError :: "outcome \<Rightarrow> string" where
  "ledgerError oc =
     (case oc of MarshalError x \<Rightarrow> x | PostError x \<Rightarrow> x | ReadError x \<Rightarrow> x
      | UnmarshalError x \<Rightarrow> x | Reply r \<Rightarrow> resp_Message r)"

text \<open>The requests an attempted call hands to \<open>http.Post\<close>: none when marshalling fails.\<close>

definition attempted :: "env \<Rightarrow> request \<Rightarrow> request list" where
  "attempted e call = (case respond e call of MarshalError x \<Rightarrow> [] | _ \<Rightarrow> [call])"

text \<open>\<open>http.Post\<close> returned a response (whatever its body).\<close>

definition delivered :: "outcome \<Rightarrow> bool" where
  "delivered oc = (case oc of MarshalError x \<Rightarrow> False | PostError x \<Rightarrow> False | _ \<Rightarrow> True)"

text \<open>
  The step a bracketed call leaves in the ledger when it began at clock reading \<open>c\<close>,
  and the state after such a call on a transaction that has no step of that name yet.
\<close>

definition stepRecord :: "string \<Rightarrow> bool \<Rightarrow> string \<Rightarrow> nat \<Rightarrow> Step" where
  "stepRecord name ok err c =
     \<lparr>step_Name = name,
      step_Status = (if ok then TransactionStatusCompleted else TransactionStatusFailed),
      step_StartedAt = At c, step_EndedAt = At (Suc c),
      step_Error = (if ok then [] else err)\<rparr>"

definition ledgered ::
  "string \<Rightarrow> string \<Rightarrow> bool \<Rightarrow> string \<Rightarrow> request list \<Rightarrow> world \<Rightarrow> world" where
  "ledgered tid name ok err reqs w =
     (case transactions w tid of
        None \<Rightarrow> w\<lparr>posted := posted w @ reqs\<rparr>
      | Some t \<Rightarrow>
          w\<lparr>transactions := (transactions w)(tid \<mapsto>
               t\<lparr>Steps := Steps t @ [stepRecord name ok err (clock w)]\<rparr>),
            clock := Suc (Suc (clock w)), posted := posted w @ reqs\<rparr>)"

definition fresh :: "string \<Rightarrow> string \<Rightarrow> world \<Rightarrow> bool" where
  "fresh tid name w =
     (case transactions w tid of None \<Rightarrow> True
      | Some t \<Rightarrow> name \<notin> set (map step_Name (Steps t)))"

definition unstarted :: "string \<Rightarrow> world \<Rightarrow> bool" where
  "unstarted tid w = (case transactions w tid of None \<Rightarrow> True | Some t \<Rightarrow> Steps t = [])"

text \<open>Reading decimal digits back, to show that \<open>itoa\<close> is injective.\<close>

definition undigits :: "string \<Rightarrow> nat" where
  "undigits cs = foldl (\<lambda>a c. 10 * a + (of_char c - 48)) 0 cs"

subsection \<open>Concrete inputs\<close>

definition initWorld :: "nat \<Rightarrow> world" where
  "initWorld c = \<lparr>transactions = Map.empty, nextID = 1, clock = c, posted = []\<rparr>"

definition demoRequest :: CreateOrderRequest where
  "demoRequest =
     \<lparr>req_CustomerID = ''CUST-7'',
      req_Items = [\<lparr>item_ID = ''I1'', item_Name = ''Pen'', item_Price = 5, item_Quantity = 2\<rparr>],
      req_Amount = 10, req_Address = ''Jl. Merdeka 1''\<rparr>"

definition demoHttp :: httpRequest where
  "demoHttp = \<lparr>http_Method = ''POST'', http_Body = Some demoRequest\<rparr>"

definition demoReply :: Response where
  "demoReply = \<lparr>resp_Success = True, resp_Message = ''ok'', resp_OrderID = ''ORD-1''\<rparr>"

definition demoRefusal :: Response where
  "demoRefusal = \<lparr>resp_Success = False, resp_Message = ''refused'', resp_OrderID = []\<rparr>"

text \<open>Every participant accepts.\<close>

definition envAllOk :: env where
  "envAllOk = \<lparr>respond = (\<lambda>call. Reply demoReply), Errorf = (\<lambda>m. m)\<rparr>"

text \<open>The order participant refuses to create the order.\<close>

definition envCreateFails :: env where
  "envCreateFails =
     \<lparr>respond = (\<lambda>call. case call of CreateOrderReq c i a \<Rightarrow> Reply demoRefusal
                        | _ \<Rightarrow> Reply demoReply),
      Errorf = (\<lambda>m. m)\<rparr>"

text \<open>The shipping participant refuses; the compensations are delivered.\<close>

definition envShippingFails :: env where
  "envShippingFails =
     \<lparr>respond = (\<lambda>call. case call of StartShippingReq oid a \<Rightarrow> Reply demoRefusal
                        | _ \<Rightarrow> Reply demoReply),
      Errorf = (\<lambda>m. m)\<rparr>"


text \<open>The state the handler leaves after accepting \<open>demoHttp\<close> in the initial state.\<close>

definition demoWorld :: world where
  "demoWorld = snd (snd (createOrderSagaHandler demoHttp (initWorld 0)))"

text \<open>
  A transaction whose ledger holds an ended CREATE_ORDER step and two CANCEL_ORDER steps,
  the first ended and the second still open.
\<close>

definition repeatedStepTransaction :: Transaction where
  "repeatedStepTransaction =
     \<lparr>ID = ''TRX-1'', OrderID = ''ORD-1'', CustomerID = ''CUST-7'', Amount = 10,
      Address = ''Jl. Merdeka 1'', Status = TransactionStatusPending, CreatedAt = At 0,
      CompletedAt = ZeroTime, FailureReason = [],
      Steps = [\<lparr>step_Name = ''CREATE_ORDER'', step_Status = TransactionStatusCompleted,
                 step_StartedAt = At 1, step_EndedAt = At 2, step_Error = []\<rparr>,
               \<lparr>step_Name = ''CANCEL_ORDER'', step_Status = TransactionStatusCompleted,
                 step_StartedAt = At 3, step_EndedAt = At 4, step_Error = []\<rparr>,
               \<lparr>step_Name = ''CANCEL_ORDER'', step_Status = TransactionStatusPending,
                 step_StartedAt = At 5, step_EndedAt = ZeroTime, step_Error = []\<rparr>]\<rparr>"

definition repeatedStepWorld :: world where
  "repeatedStepWorld =
     \<lparr>transactions = [''TRX-1'' \<mapsto> repeatedStepTransaction], nextID = 2, clock = 6,
      posted = []\<rparr>"

section \<open>The running system\<close>

text \<open>
  Several sagas run at once, each in its own goroutine, and every access to the shared
  state happens inside one critical section of the mutex. A goroutine is therefore a
  sequence of atomic actions: the critical sections \<open>addStep\<close>, \<open>updateStepStatus\<close>,
  \<open>updateTransactionStatus\<close> and the one inside \<open>executeSaga\<close> that records the order
  id, and the calls of \<open>http.Post\<close> between them.
\<close>

datatype action =
    AddStep string string
  | Post request
  | UpdateStepStatus string string bool string
  | RecordOrderID string string
  | UpdateTransactionStatus string string string

fun perform :: "action \<Rightarrow> world \<Rightarrow> world" where
  "perform (AddStep transactionID stepName) w = addStep transactionID stepName w"
| "perform (Post call) w = httpPost call w"
| "perform (UpdateStepStatus transactionID stepName success errorMsg) w =
     updateStepStatus transactionID stepName success errorMsg w"
| "perform (RecordOrderID transactionID orderID) w = recordOrderID transactionID orderID w"
| "perform (UpdateTransactionStatus transactionID status failureReason) w =
     updateTransactionStatus transactionID status failureReason w"

text \<open>
  The actions of a forward call (\<open>createOrder\<close>, \<open>processPayment\<close>, \<open>startShipping\<close>)
  and of a compensating call (\<open>cancelOrder\<close>, \<open>refundPayment\<close>) with a given outcome,
  and the actions of \<open>executeSaga\<close>. Lemma \<open>executeSaga_actions\<close> below shows that
  performing them in order is \<open>executeSaga\<close>.
\<close>

definition forwardActions :: "string \<Rightarrow> string \<Rightarrow> request \<Rightarrow> outcome \<Rightarrow> action list" where
  "forwardActions tid name call oc =
     AddStep tid name #
     (case oc of MarshalError x \<Rightarrow> [] | _ \<Rightarrow> [Post call]) @
     [UpdateStepStatus tid name (succeeded oc) (if succeeded oc then [] else ledgerError oc)]"

definition compensationActions ::
  "string \<Rightarrow> string \<Rightarrow> request \<Rightarrow> outcome \<Rightarrow> action list" where
  "compensationActions tid name call oc =
     AddStep tid name #
     (case oc of MarshalError x \<Rightarrow> [] | _ \<Rightarrow> [Post call]) @
     [UpdateStepStatus tid name (delivered oc) (if delivered oc then [] else ledgerError oc)]"

definition orderIDOf :: "outcome \<Rightarrow> string" where
  "orderIDOf oc = (case oc of Reply r \<Rightarrow> resp_OrderID r | _ \<Rightarrow> [])"

definition sagaActions :: "env \<Rightarrow> string \<Rightarrow> CreateOrderRequest \<Rightarrow> action list" where
  "sagaActions e tid req =
     (let call1 = CreateOrderReq (req_CustomerID req) (req_Items req) (req_Amount req);
          oc1 = respond e call1;
          orderID = orderIDOf oc1;
          call2 = ProcessPaymentReq orderID (req_Amount req);
          oc2 = respond e call2;
          call3 = StartShippingReq orderID (req_Address req);
          oc3 = respond e call3;
          refund = compensationActions tid ''REFUND_PAYMENT'' (RefundPaymentReq orderID)
                     (respond e (RefundPaymentReq orderID));
          cancel = compensationActions tid ''CANCEL_ORDER'' (CancelOrderReq orderID)
                     (respond e (CancelOrderReq orderID))
      in forwardActions tid ''CREATE_ORDER'' call1 oc1 @
         (if \<not> succeeded oc1
          then [UpdateTransactionStatus tid TransactionStatusFailed
                  (''Failed to create order: '' @ callError e oc1)]
          else RecordOrderID tid orderID #
               forwardActions tid ''PROCESS_PAYMENT'' call2 oc2 @
               (if \<not> succeeded oc2
                then cancel @
                     [UpdateTransactionStatus tid TransactionStatusFailed
                        (''Failed to process payment: '' @ callError e oc2)]
                else forwardActions tid ''START_SHIPPING'' call3 oc3 @
                     (if \<not> succeeded oc3
                      then refund @ cancel @
                           [UpdateTransactionStatus tid TransactionStatusFailed
                              (''Failed to start shipping: '' @ callError e oc3)]
                      else [UpdateTransactionStatus tid TransactionStatusCompleted []]))))"

text \<open>
  A state of the system: the shared state, and for every goroutine started so far its
  transaction id and the actions it has yet to perform.
\<close>

record system =
  store :: world
  tasks :: "(string \<times> action list) list"

text \<open>
  A start-saga request: the handler runs, and if it accepts the request a goroutine for
  \<open>executeSaga\<close> is added. The participants this saga will meet are \<open>e\<close>.
\<close>

definition startSaga :: "env \<Rightarrow> httpRequest \<Rightarrow> system \<Rightarrow> httpResponse \<times> system" where
  "startSaga e r s =
     (case createOrderSagaHandler r (store s) of
        (resp, None, w1) \<Rightarrow> (resp, s\<lparr>store := w1\<rparr>)
      | (resp, Some (tid, req), w1) \<Rightarrow>
          (resp, \<lparr>store = w1, tasks = tasks s @ [(tid, sagaActions e tid req)]\<rparr>))"

text \<open>
  One transition: a start-saga request is handled, a status query is handled (it only
  reads), or some goroutine performs its next action.
\<close>

inductive transition :: "system \<Rightarrow> system \<Rightarrow> bool" where
  request: "transition s (snd (startSaga e r s))"
| query: "transition s s"
| advance: "tasks s = before @ (tid, a # rest) # after \<Longrightarrow>
     transition s \<lparr>store = perform a (store s), tasks = before @ (tid, rest) # after\<rparr>"

definition initial :: "nat \<Rightarrow> system" where
  "initial c = \<lparr>store = initWorld c, tasks = []\<rparr>"

inductive reachable :: "system \<Rightarrow> bool" where
  init: "reachable (initial c)"
| step: "reachable s \<Longrightarrow> transition s s' \<Longrightarrow> reachable s'"

subsection \<open>The invariant of the running system\<close>

text \<open>An action of the saga of \<open>tid\<close> other than its final status update.\<close>

definition ledgerAction :: "string \<Rightarrow> action \<Rightarrow> bool" where
  "ledgerAction tid a =
     (case a of
        AddStep t n \<Rightarrow> t = tid
      | Post c \<Rightarrow> True
      | UpdateStepStatus t n ok err \<Rightarrow> t = tid
      | RecordOrderID t oid \<Rightarrow> t = tid
      | UpdateTransactionStatus t st r \<Rightarrow> False)"

text \<open>
  What a saga of \<open>tid\<close> that has not finished has yet to do: ledger actions, and then one
  update of the transaction status to COMPLETED or FAILED.
\<close>

fun sagaRest :: "string \<Rightarrow> action list \<Rightarrow> bool" where
  "sagaRest tid [] = False"
| "sagaRest tid [a] =
     (case a of
        UpdateTransactionStatus t st r \<Rightarrow>
          t = tid \<and> (st = TransactionStatusCompleted \<or> st = TransactionStatusFailed)
      | _ \<Rightarrow> False)"
| "sagaRest tid (a # b # rest) = (ledgerAction tid a \<and> sagaRest tid (b # rest))"

definition terminal :: "string \<Rightarrow> bool" where
  "terminal st = (st = TransactionStatusCompleted \<or> st = TransactionStatusFailed)"

definition pending :: "Transaction \<Rightarrow> bool" where
  "pending t = (Status t = TransactionStatusPending)"

definition wellStatused :: "Transaction \<Rightarrow> bool" where
  "wellStatused t =
     ((Status t = TransactionStatusPending \<and> CompletedAt t = ZeroTime)
      \<or> ((Status t = TransactionStatusCompleted \<or> Status t = TransactionStatusFailed)
          \<and> CompletedAt t \<noteq> ZeroTime))"

definition invariant :: "system \<Rightarrow> bool" where
  "invariant s =
     ((\<forall>tid t. transactions (store s) tid = Some t \<longrightarrow>
          wellStatused t \<and> (\<exists>n. n < nextID (store s) \<and> tid = ''TRX-'' @ itoa n))
      \<and> distinct (map fst (tasks s))
      \<and> (\<forall>task \<in> set (tasks s). \<exists>t. transactions (store s) (fst task) = Some t
            \<and> (snd task = [] \<or>
                (sagaRest (fst task) (snd task) \<and> Status t = TransactionStatusPending))))"

text \<open>
  Two transactions that agree in everything but the values of their timestamps (which of
  them are set is part of the agreement). Interleaving a saga with other goroutines changes
  the clock readings it gets and nothing else, see lemma \<open>saga_finished_interleaved\<close>.
\<close>

definition sameStep :: "Step \<Rightarrow> Step \<Rightarrow> bool" where
  "sameStep a b =
     (step_Name a = step_Name b \<and> step_Status a = step_Status b \<and> step_Error a = step_Error b
      \<and> (step_EndedAt a = ZeroTime \<longleftrightarrow> step_EndedAt b = ZeroTime))"

definition sameLedger :: "Transaction \<Rightarrow> Transaction \<Rightarrow> bool" where
  "sameLedger t u =
     (ID t = ID u \<and> OrderID t = OrderID u \<and> CustomerID t = CustomerID u
      \<and> Amount t = Amount u \<and> Address t = Address u \<and> Status t = Status u
      \<and> FailureReason t = FailureReason u
      \<and> (CompletedAt t = ZeroTime \<longleftrightarrow> CompletedAt u = ZeroTime)
      \<and> list_all2 sameStep (Steps t) (Steps u))"

text \<open>
  The state in which the saga of \<open>demoHttp\<close> has run to its end with every participant
  accepting, and the state after one more start-saga request.
\<close>

definition demoDone :: system where
  "demoDone =
     \<lparr>store = executeSaga envAllOk ''TRX-1'' demoRequest demoWorld,
      tasks = [(''TRX-1'', [])]\<rparr>"

definition demoNext :: system where
  "demoNext = snd (startSaga envAllOk demoHttp demoDone)"

section \<open>Properties\<close>

declare digits10.simps [simp del]

subsection \<open>Bracketed calls\<close>

lemma updateStepLoop_fresh:
  "name \<notin> set (map step_Name xs) \<Longrightarrow> step_Name s = name \<Longrightarrow>
   updateStepLoop name ok err now (xs @ [s]) =
     xs @ [if ok then s\<lparr>step_Status := TransactionStatusCompleted, step_EndedAt := now\<rparr>
           else s\<lparr>step_Status := TransactionStatusFailed, step_Error := err,
                   step_EndedAt := now\<rparr>]"
  by (induction xs) auto

lemma bracket_post:
  "fresh tid name w \<Longrightarrow>
   updateStepStatus tid name ok err (httpPost c (addStep tid name w)) = ledgered tid name ok err [c] w"
  by (cases "transactions w tid")
     (simp_all add: fresh_def updateStepStatus_def httpPost_def addStep_def ledgered_def
        updateStepLoop_fresh stepRecord_def)

lemma bracket_nopost:
  "fresh tid name w \<Longrightarrow>
   updateStepStatus tid name ok err (addStep tid name w) = ledgered tid name ok err [] w"
  by (cases "transactions w tid")
     (simp_all add: fresh_def updateStepStatus_def addStep_def ledgered_def
        updateStepLoop_fresh stepRecord_def)


lemma createOrder_ok:
  assumes "fresh tid ''CREATE_ORDER'' w"
    and "respond e (CreateOrderReq (req_CustomerID req) (req_Items req) (req_Amount req)) = Reply r"
    and "resp_Success r"
  shows "createOrder e tid req w =
    (Inr (resp_OrderID r),
     ledgered tid ''CREATE_ORDER'' True []
       [CreateOrderReq (req_CustomerID req) (req_Items req) (req_Amount req)] w)"
  using assms by (simp add: createOrder_def bracket_post)

lemma createOrder_fail:
  assumes "fresh tid ''CREATE_ORDER'' w"
    and "\<not> succeeded (respond e (CreateOrderReq (req_CustomerID req) (req_Items req) (req_Amount req)))"
  shows "createOrder e tid req w =
    (Inl (callError e (respond e (CreateOrderReq (req_CustomerID req) (req_Items req) (req_Amount req)))),
     ledgered tid ''CREATE_ORDER'' False
       (ledgerError (respond e (CreateOrderReq (req_CustomerID req) (req_Items req) (req_Amount req))))
       (attempted e (CreateOrderReq (req_CustomerID req) (req_Items req) (req_Amount req))) w)"
  using assms
  by (cases "respond e (CreateOrderReq (req_CustomerID req) (req_Items req) (req_Amount req))")
     (simp_all add: createOrder_def bracket_post bracket_nopost succeeded_def callError_def
        ledgerError_def attempted_def)

lemma processPayment_ok:
  assumes "fresh tid ''PROCESS_PAYMENT'' w"
    and "respond e (ProcessPaymentReq oid amt) = Reply r" and "resp_Success r"
  shows "processPayment e tid oid amt w =
    (None, ledgered tid ''PROCESS_PAYMENT'' True [] [ProcessPaymentReq oid amt] w)"
  using assms by (simp add: processPayment_def bracket_post)

lemma processPayment_fail:
  assumes "fresh tid ''PROCESS_PAYMENT'' w"
    and "\<not> succeeded (respond e (ProcessPaymentReq oid amt))"
  shows "processPayment e tid oid amt w =
    (Some (callError e (respond e (ProcessPaymentReq oid amt))),
     ledgered tid ''PROCESS_PAYMENT'' False (ledgerError (respond e (ProcessPaymentReq oid amt)))
       (attempted e (ProcessPaymentReq oid amt)) w)"
  using assms
  by (cases "respond e (ProcessPaymentReq oid amt)")
     (simp_all add: processPayment_def bracket_post bracket_nopost succeeded_def callError_def
        ledgerError_def attempted_def)

lemma startShipping_ok:
  assumes "fresh tid ''START_SHIPPING'' w"
    and "respond e (StartShippingReq oid addr) = Reply r" and "resp_Success r"
  shows "startShipping e tid oid addr w =
    (None, ledgered tid ''START_SHIPPING'' True [] [StartShippingReq oid addr] w)"
  using assms by (simp add: startShipping_def bracket_post)

lemma startShipping_fail:
  assumes "fresh tid ''START_SHIPPING'' w"
    and "\<not> succeeded (respond e (StartShippingReq oid addr))"
  shows "startShipping e tid oid addr w =
    (Some (callError e (respond e (StartShippingReq oid addr))),
     ledgered tid ''START_SHIPPING'' False (ledgerError (respond e (StartShippingReq oid addr)))
       (attempted e (StartShippingReq oid addr)) w)"
  using assms
  by (cases "respond e (StartShippingReq oid addr)")
     (simp_all add: startShipping_def bracket_post bracket_nopost succeeded_def callError_def
        ledgerError_def attempted_def)

lemma cancelOrder_eq:
  assumes "fresh tid ''CANCEL_ORDER'' w"
  shows "cancelOrder e tid oid w =
     ledgered tid ''CANCEL_ORDER'' (delivered (respond e (CancelOrderReq oid)))
       (ledgerError (respond e (CancelOrderReq oid))) (attempted e (CancelOrderReq oid)) w"
  using assms
  by (cases "respond e (CancelOrderReq oid)")
     (simp_all add: cancelOrder_def bracket_post bracket_nopost delivered_def
        ledgerError_def attempted_def ledgered_def stepRecord_def split: option.splits)

lemma refundPayment_eq:
  assumes "fresh tid ''REFUND_PAYMENT'' w"
  shows "refundPayment e tid oid w =
     ledgered tid ''REFUND_PAYMENT'' (delivered (respond e (RefundPaymentReq oid)))
       (ledgerError (respond e (RefundPaymentReq oid))) (attempted e (RefundPaymentReq oid)) w"
  using assms
  by (cases "respond e (RefundPaymentReq oid)")
     (simp_all add: refundPayment_def bracket_post bracket_nopost delivered_def
        ledgerError_def attempted_def ledgered_def stepRecord_def split: option.splits)

lemma fresh_ledgered:
  "fresh tid n w \<Longrightarrow> n \<noteq> m \<Longrightarrow> fresh tid n (ledgered tid m ok err reqs w)"
  by (auto simp: fresh_def ledgered_def stepRecord_def split: option.splits)

lemma fresh_recordOrderID:
  "fresh tid n w \<Longrightarrow> fresh tid n (recordOrderID tid oid w)"
  by (auto simp: fresh_def recordOrderID_def zeroTransaction_def split: option.splits)

lemma fresh_unstarted: "unstarted tid w \<Longrightarrow> fresh tid n w"
  by (simp add: fresh_def unstarted_def split: option.splits)

lemma executeSaga_all_ok:
  assumes u: "unstarted tid w"
    and c1: "respond e (CreateOrderReq (req_CustomerID req) (req_Items req) (req_Amount req)) = Reply r1"
            "resp_Success r1"
    and c2: "respond e (ProcessPaymentReq (resp_OrderID r1) (req_Amount req)) = Reply r2"
            "resp_Success r2"
    and c3: "respond e (StartShippingReq (resp_OrderID r1) (req_Address req)) = Reply r3"
            "resp_Success r3"
  shows "executeSaga e tid req w =
     updateTransactionStatus tid TransactionStatusCompleted []
       (ledgered tid ''START_SHIPPING'' True []
          [StartShippingReq (resp_OrderID r1) (req_Address req)]
       (ledgered tid ''PROCESS_PAYMENT'' True []
          [ProcessPaymentReq (resp_OrderID r1) (req_Amount req)]
       (recordOrderID tid (resp_OrderID r1)
       (ledgered tid ''CREATE_ORDER'' True []
          [CreateOrderReq (req_CustomerID req) (req_Items req) (req_Amount req)] w))))"
  unfolding executeSaga_def
  using c1 c2 c3
  by (simp add: createOrder_ok processPayment_ok startShipping_ok
        fresh_ledgered fresh_recordOrderID fresh_unstarted [OF u] Let_def)

lemma executeSaga_create_fail:
  assumes u: "unstarted tid w"
    and c1: "\<not> succeeded (respond e (CreateOrderReq (req_CustomerID req) (req_Items req) (req_Amount req)))"
  shows "executeSaga e tid req w =
     updateTransactionStatus tid TransactionStatusFailed
       (''Failed to create order: '' @
          callError e (respond e (CreateOrderReq (req_CustomerID req) (req_Items req) (req_Amount req))))
       (ledgered tid ''CREATE_ORDER'' False
          (ledgerError (respond e (CreateOrderReq (req_CustomerID req) (req_Items req) (req_Amount req))))
          (attempted e (CreateOrderReq (req_CustomerID req) (req_Items req) (req_Amount req))) w)"
  unfolding executeSaga_def
  using c1
  by (simp add: createOrder_fail fresh_unstarted [OF u])

lemma executeSaga_payment_fail:
  assumes u: "unstarted tid w"
    and c1: "respond e (CreateOrderReq (req_CustomerID req) (req_Items req) (req_Amount req)) = Reply r1"
            "resp_Success r1"
    and c2: "\<not> succeeded (respond e (ProcessPaymentReq (resp_OrderID r1) (req_Amount req)))"
  shows "executeSaga e tid req w =
     updateTransactionStatus tid TransactionStatusFailed
       (''Failed to process payment: '' @
          callError e (respond e (ProcessPaymentReq (resp_OrderID r1) (req_Amount req))))
       (ledgered tid ''CANCEL_ORDER'' (delivered (respond e (CancelOrderReq (resp_OrderID r1))))
          (ledgerError (respond e (CancelOrderReq (resp_OrderID r1))))
          (attempted e (CancelOrderReq (resp_OrderID r1)))
       (ledgered tid ''PROCESS_PAYMENT'' False
          (ledgerError (respond e (ProcessPaymentReq (resp_OrderID r1) (req_Amount req))))
          (attempted e (ProcessPaymentReq (resp_OrderID r1) (req_Amount req)))
       (recordOrderID tid (resp_OrderID r1)
       (ledgered tid ''CREATE_ORDER'' True []
          [CreateOrderReq (req_CustomerID req) (req_Items req) (req_Amount req)] w))))"
  unfolding executeSaga_def
  using c1 c2
  by (simp add: createOrder_ok processPayment_fail cancelOrder_eq
        fresh_ledgered fresh_recordOrderID fresh_unstarted [OF u] Let_def)

lemma executeSaga_shipping_fail:
  assumes u: "unstarted tid w"
    and c1: "respond e (CreateOrderReq (req_CustomerID req) (req_Items req) (req_Amount req)) = Reply r1"
            "resp_Success r1"
    and c2: "respond e (ProcessPaymentReq (resp_OrderID r1) (req_Amount req)) = Reply r2"
            "resp_Success r2"
    and c3: "\<not> succeeded (respond e (StartShippingReq (resp_OrderID r1) (req_Address req)))"
  shows "executeSaga e tid req w =
     updateTransactionStatus tid TransactionStatusFailed
       (''Failed to start shipping: '' @
          callError e (respond e (StartShippingReq (resp_OrderID r1) (req_Address req))))
       (ledgered tid ''CANCEL_ORDER'' (delivered (respond e (CancelOrderReq (resp_OrderID r1))))
          (ledgerError (respond e (CancelOrderReq (resp_OrderID r1))))
          (attempted e (CancelOrderReq (resp_OrderID r1)))
       (ledgered tid ''REFUND_PAYMENT'' (delivered (respond e (RefundPaymentReq (resp_OrderID r1))))
          (ledgerError (respond e (RefundPaymentReq (resp_OrderID r1))))
          (attempted e (RefundPaymentReq (resp_OrderID r1)))
       (ledgered tid ''START_SHIPPING'' False
          (ledgerError (respond e (StartShippingReq (resp_OrderID r1) (req_Address req))))
          (attempted e (StartShippingReq (resp_OrderID r1) (req_Address req)))
       (ledgered tid ''PROCESS_PAYMENT'' True []
          [ProcessPaymentReq (resp_OrderID r1) (req_Amount req)]
       (recordOrderID tid (resp_OrderID r1)
       (ledgered tid ''CREATE_ORDER'' True []
          [CreateOrderReq (req_CustomerID req) (req_Items req) (req_Amount req)] w))))))"
  unfolding executeSaga_def
  using c1 c2 c3
  by (simp add: createOrder_ok processPayment_ok startShipping_fail cancelOrder_eq refundPayment_eq
        fresh_ledgered fresh_recordOrderID fresh_unstarted [OF u] Let_def)

lemma handler_valid:
  assumes "createOrderSagaHandler r w = (resp, Some (tid, req), w1)"
  shows "http_Method r = ''POST'' \<and> http_Body r = Some req \<and> req_CustomerID req \<noteq> []
     \<and> 0 < req_Amount req \<and> req_Address req \<noteq> []
     \<and> tid = ''TRX-'' @ itoa (nextID w)
     \<and> w1 = w\<lparr>transactions := (transactions w)(tid \<mapsto>
                 \<lparr>ID = tid, OrderID = [], CustomerID = req_CustomerID req,
                  Amount = req_Amount req, Address = req_Address req,
                  Status = TransactionStatusPending, CreatedAt = At (clock w),
                  CompletedAt = ZeroTime, FailureReason = [], Steps = []\<rparr>),
               nextID := nextID w + 1, clock := Suc (clock w)\<rparr>
     \<and> resp = Json StatusAccepted \<lparr>tr_Success = True,
                 tr_Message = ''Transaction initiated successfully'',
                 tr_Transaction = \<lparr>ID = tid, OrderID = [], CustomerID = req_CustomerID req,
                  Amount = req_Amount req, Address = req_Address req,
                  Status = TransactionStatusPending, CreatedAt = At (clock w),
                  CompletedAt = ZeroTime, FailureReason = [], Steps = []\<rparr>\<rparr>"
  using assms
  by (auto simp: createOrderSagaHandler_def Let_def split: if_splits option.splits)

subsection \<open>The decimal rendering is injective\<close>

lemma undigits_digits10: "undigits (digits10 n) = n"
proof (induction n rule: digits10.induct)
  case (1 n)
  show ?case
  proof (cases "n < 10")
    case True
    then show ?thesis by (subst digits10.simps) (simp add: undigits_def)
  next
    case False
    with 1 have "undigits (digits10 (n div 10)) = n div 10" by simp
    moreover have "(48 + n mod 10) mod 256 = 48 + n mod 10"
      by (rule mod_less) simp
    ultimately show ?thesis using False
      by (subst digits10.simps) (simp add: undigits_def)
  qed
qed

lemma digits10_inj: "digits10 m = digits10 n \<Longrightarrow> m = n"
  by (metis undigits_digits10)

lemma digit_not_minus: "k < 10 \<Longrightarrow> char_of (48 + k :: nat) \<noteq> CHR ''-''"
proof
  assume k: "k < 10" and eq: "char_of (48 + k) = CHR ''-''"
  from eq have "of_char (char_of (48 + k)) = (of_char CHR ''-'' :: nat)" by simp
  with k show False by simp
qed

lemma digits10_no_minus: "CHR ''-'' \<notin> set (digits10 n)"
proof (induction n rule: digits10.induct)
  case (1 n)
  show ?case
  proof (cases "n < 10")
    case True
    then have "char_of (48 + n) \<noteq> CHR ''-''" by (rule digit_not_minus)
    with True show ?thesis by (subst digits10.simps) auto
  next
    case False
    with 1 have "CHR ''-'' \<notin> set (digits10 (n div 10))" by simp
    moreover have "char_of (48 + n mod 10) \<noteq> CHR ''-''" by (rule digit_not_minus) simp
    ultimately show ?thesis using False
      by (subst digits10.simps) auto
  qed
qed

lemma itoa_inj: "itoa i = itoa j \<Longrightarrow> i = j"
proof -
  assume eq: "itoa i = itoa j"
  have neg: False if "a < 0" "\<not> b < 0" "itoa a = itoa b" for a b
  proof -
    from that have "CHR ''-'' # digits10 (nat (- a)) = digits10 (nat b)" by (simp add: itoa_def)
    then have "CHR ''-'' \<in> set (digits10 (nat b))" by (metis list.set_intros(1))
    then show False by (simp add: digits10_no_minus)
  qed
  show ?thesis
  proof (cases "i < 0"; cases "j < 0")
    assume "i < 0" "j < 0"
    with eq have "digits10 (nat (- i)) = digits10 (nat (- j))" by (simp add: itoa_def)
    then have "nat (- i) = nat (- j)" by (rule digits10_inj)
    with \<open>i < 0\<close> \<open>j < 0\<close> show ?thesis by simp
  next
    assume "\<not> i < 0" "\<not> j < 0"
    with eq have "digits10 (nat i) = digits10 (nat j)" by (simp add: itoa_def)
    then have "nat i = nat j" by (rule digits10_inj)
    with \<open>\<not> i < 0\<close> \<open>\<not> j < 0\<close> show ?thesis by simp
  next
    assume "i < 0" "\<not> j < 0" with neg eq show ?thesis by blast
  next
    assume "\<not> i < 0" "j < 0" with neg [of j i] eq show ?thesis by simp
  qed
qed

lemma itoa_1: "itoa 1 = ''1''" by code_simp
lemma itoa_2: "itoa 2 = ''2''" by code_simp

subsection \<open>The concrete inputs evaluated\<close>

lemma demoWorld_started:
  "createOrderSagaHandler demoHttp (initWorld 0) =
     (fst (createOrderSagaHandler demoHttp (initWorld 0)), Some (''TRX-1'', demoRequest),
      demoWorld)"
  by (simp add: createOrderSagaHandler_def demoHttp_def demoRequest_def initWorld_def
        demoWorld_def itoa_1 Let_def)

lemma demoWorld_eq:
  "demoWorld =
     \<lparr>transactions = [''TRX-1'' \<mapsto>
        \<lparr>ID = ''TRX-1'', OrderID = [], CustomerID = ''CUST-7'', Amount = 10,
         Address = ''Jl. Merdeka 1'', Status = TransactionStatusPending, CreatedAt = At 0,
         CompletedAt = ZeroTime, FailureReason = [], Steps = []\<rparr>],
      nextID = 2, clock = 1, posted = []\<rparr>"
  by (simp add: createOrderSagaHandler_def demoHttp_def demoRequest_def initWorld_def
        demoWorld_def itoa_1 Let_def)

subsection \<open>The saga runs\<close>

text \<open>
  Claim C1. A saga run is the handler accepting a request and \<open>executeSaga\<close> running
  on the state the handler leaves. When the create-order, process-payment and
  start-shipping calls all succeed, the transaction ends with status COMPLETED, an empty
  failure reason, and a ledger of exactly the three steps CREATE_ORDER, PROCESS_PAYMENT,
  START_SHIPPING in that order, each COMPLETED.
\<close>

theorem saga_all_succeed:
  assumes started: "createOrderSagaHandler r w = (resp, Some (tid, req), w1)"
    and c1: "respond e (CreateOrderReq (req_CustomerID req) (req_Items req) (req_Amount req))
               = Reply r1" "resp_Success r1"
    and c2: "respond e (ProcessPaymentReq (resp_OrderID r1) (req_Amount req)) = Reply r2"
            "resp_Success r2"
    and c3: "respond e (StartShippingReq (resp_OrderID r1) (req_Address req)) = Reply r3"
            "resp_Success r3"
  shows "\<exists>t. transactions (executeSaga e tid req w1) tid = Some t
     \<and> Status t = TransactionStatusCompleted
     \<and> FailureReason t = []
     \<and> map step_Name (Steps t) = [''CREATE_ORDER'', ''PROCESS_PAYMENT'', ''START_SHIPPING'']
     \<and> map step_Status (Steps t) =
         [TransactionStatusCompleted, TransactionStatusCompleted, TransactionStatusCompleted]"
proof -
  from handler_valid [OF started]
  have w1: "w1 = w\<lparr>transactions := (transactions w)(tid \<mapsto>
                 \<lparr>ID = tid, OrderID = [], CustomerID = req_CustomerID req,
                  Amount = req_Amount req, Address = req_Address req,
                  Status = TransactionStatusPending, CreatedAt = At (clock w),
                  CompletedAt = ZeroTime, FailureReason = [], Steps = []\<rparr>),
               nextID := nextID w + 1, clock := Suc (clock w)\<rparr>"
    by simp
  have u: "unstarted tid w1" by (simp add: w1 unstarted_def)
  show ?thesis
    unfolding executeSaga_all_ok [OF u c1 c2 c3]
    by (simp add: w1 ledgered_def recordOrderID_def updateTransactionStatus_def Let_def
          stepRecord_def)
qed

theorem saga_all_succeed_witness:
  "\<exists>t. transactions (executeSaga envAllOk ''TRX-1'' demoRequest demoWorld) ''TRX-1'' = Some t
     \<and> Status t = TransactionStatusCompleted
     \<and> FailureReason t = []
     \<and> map step_Name (Steps t) = [''CREATE_ORDER'', ''PROCESS_PAYMENT'', ''START_SHIPPING'']
     \<and> map step_Status (Steps t) =
         [TransactionStatusCompleted, TransactionStatusCompleted, TransactionStatusCompleted]"
  by (rule saga_all_succeed [OF demoWorld_started, where e = envAllOk and ?r1.0 = demoReply
        and ?r2.0 = demoReply and ?r3.0 = demoReply])
     (simp_all add: envAllOk_def demoReply_def)

text \<open>
  Claim C2. When create-order and process-payment succeed and start-shipping fails, the
  ledger is CREATE_ORDER, PROCESS_PAYMENT, START_SHIPPING (FAILED), REFUND_PAYMENT,
  CANCEL_ORDER in that order, the requests leave the orchestrator in the same order
  (the refund before the cancellation, both after the shipping request), the transaction
  ends FAILED and its failure reason starts with "Failed to start shipping".
\<close>

theorem saga_shipping_fails:
  assumes started: "createOrderSagaHandler r w = (resp, Some (tid, req), w1)"
    and c1: "respond e (CreateOrderReq (req_CustomerID req) (req_Items req) (req_Amount req))
               = Reply r1" "resp_Success r1"
    and c2: "respond e (ProcessPaymentReq (resp_OrderID r1) (req_Amount req)) = Reply r2"
            "resp_Success r2"
    and c3: "\<not> succeeded (respond e (StartShippingReq (resp_OrderID r1) (req_Address req)))"
  shows "\<exists>t. transactions (executeSaga e tid req w1) tid = Some t
     \<and> Status t = TransactionStatusFailed
     \<and> prefix ''Failed to start shipping'' (FailureReason t)
     \<and> map step_Name (Steps t) =
         [''CREATE_ORDER'', ''PROCESS_PAYMENT'', ''START_SHIPPING'', ''REFUND_PAYMENT'',
          ''CANCEL_ORDER'']
     \<and> take 3 (map step_Status (Steps t)) =
         [TransactionStatusCompleted, TransactionStatusCompleted, TransactionStatusFailed]
     \<and> posted (executeSaga e tid req w1) =
         posted w1 @
         [CreateOrderReq (req_CustomerID req) (req_Items req) (req_Amount req),
          ProcessPaymentReq (resp_OrderID r1) (req_Amount req)] @
         attempted e (StartShippingReq (resp_OrderID r1) (req_Address req)) @
         attempted e (RefundPaymentReq (resp_OrderID r1)) @
         attempted e (CancelOrderReq (resp_OrderID r1))"
proof -
  from handler_valid [OF started]
  have w1: "w1 = w\<lparr>transactions := (transactions w)(tid \<mapsto>
                 \<lparr>ID = tid, OrderID = [], CustomerID = req_CustomerID req,
                  Amount = req_Amount req, Address = req_Address req,
                  Status = TransactionStatusPending, CreatedAt = At (clock w),
                  CompletedAt = ZeroTime, FailureReason = [], Steps = []\<rparr>),
               nextID := nextID w + 1, clock := Suc (clock w)\<rparr>"
    by simp
  have u: "unstarted tid w1" by (simp add: w1 unstarted_def)
  show ?thesis
    unfolding executeSaga_shipping_fail [OF u c1 c2 c3]
    by (simp add: w1 ledgered_def recordOrderID_def updateTransactionStatus_def Let_def
          stepRecord_def)
qed

theorem saga_shipping_fails_witness:
  "\<exists>t. transactions (executeSaga envShippingFails ''TRX-1'' demoRequest demoWorld) ''TRX-1''
         = Some t
     \<and> Status t = TransactionStatusFailed
     \<and> prefix ''Failed to start shipping'' (FailureReason t)
     \<and> map step_Name (Steps t) =
         [''CREATE_ORDER'', ''PROCESS_PAYMENT'', ''START_SHIPPING'', ''REFUND_PAYMENT'',
          ''CANCEL_ORDER'']
     \<and> take 3 (map step_Status (Steps t)) =
         [TransactionStatusCompleted, TransactionStatusCompleted, TransactionStatusFailed]
     \<and> posted (executeSaga envShippingFails ''TRX-1'' demoRequest demoWorld) =
         [CreateOrderReq ''CUST-7'' (req_Items demoRequest) 10,
          ProcessPaymentReq ''ORD-1'' 10, StartShippingReq ''ORD-1'' ''Jl. Merdeka 1'',
          RefundPaymentReq ''ORD-1'', CancelOrderReq ''ORD-1'']"
proof -
  have c1: "respond envShippingFails
      (CreateOrderReq (req_CustomerID demoRequest) (req_Items demoRequest)
         (req_Amount demoRequest)) = Reply demoReply"
    and c2: "respond envShippingFails
      (ProcessPaymentReq (resp_OrderID demoReply) (req_Amount demoRequest)) = Reply demoReply"
    and ok: "resp_Success demoReply"
    and c3: "\<not> succeeded (respond envShippingFails
      (StartShippingReq (resp_OrderID demoReply) (req_Address demoRequest)))"
    by (simp_all add: envShippingFails_def demoReply_def demoRefusal_def succeeded_def)
  from saga_shipping_fails [OF demoWorld_started c1 ok c2 ok c3]
  show ?thesis
    by (simp add: attempted_def envShippingFails_def demoReply_def demoRequest_def
          demoWorld_eq)
qed

text \<open>
  Claim C5. When the create-order call fails, the transaction ends FAILED with a failure
  reason that starts with "Failed to create order", the ledger holds the single step
  CREATE_ORDER with status FAILED, and the only request that can have left the
  orchestrator is the create-order request itself: no compensating operation is invoked.
\<close>

theorem saga_create_order_fails:
  assumes started: "createOrderSagaHandler r w = (resp, Some (tid, req), w1)"
    and c1: "\<not> succeeded (respond e
               (CreateOrderReq (req_CustomerID req) (req_Items req) (req_Amount req)))"
  shows "\<exists>t. transactions (executeSaga e tid req w1) tid = Some t
     \<and> Status t = TransactionStatusFailed
     \<and> prefix ''Failed to create order'' (FailureReason t)
     \<and> map step_Name (Steps t) = [''CREATE_ORDER'']
     \<and> map step_Status (Steps t) = [TransactionStatusFailed]
     \<and> posted (executeSaga e tid req w1) =
         posted w1 @
         attempted e (CreateOrderReq (req_CustomerID req) (req_Items req) (req_Amount req))"
proof -
  from handler_valid [OF started]
  have w1: "w1 = w\<lparr>transactions := (transactions w)(tid \<mapsto>
                 \<lparr>ID = tid, OrderID = [], CustomerID = req_CustomerID req,
                  Amount = req_Amount req, Address = req_Address req,
                  Status = TransactionStatusPending, CreatedAt = At (clock w),
                  CompletedAt = ZeroTime, FailureReason = [], Steps = []\<rparr>),
               nextID := nextID w + 1, clock := Suc (clock w)\<rparr>"
    by simp
  have u: "unstarted tid w1" by (simp add: w1 unstarted_def)
  show ?thesis
    unfolding executeSaga_create_fail [OF u c1]
    by (simp add: w1 ledgered_def updateTransactionStatus_def Let_def stepRecord_def)
qed

theorem saga_create_order_fails_witness:
  "\<exists>t. transactions (executeSaga envCreateFails ''TRX-1'' demoRequest demoWorld) ''TRX-1''
         = Some t
     \<and> Status t = TransactionStatusFailed
     \<and> prefix ''Failed to create order'' (FailureReason t)
     \<and> map step_Name (Steps t) = [''CREATE_ORDER'']
     \<and> map step_Status (Steps t) = [TransactionStatusFailed]
     \<and> posted (executeSaga envCreateFails ''TRX-1'' demoRequest demoWorld) =
         [CreateOrderReq ''CUST-7'' (req_Items demoRequest) 10]"
proof -
  have c1: "\<not> succeeded (respond envCreateFails
      (CreateOrderReq (req_CustomerID demoRequest) (req_Items demoRequest)
         (req_Amount demoRequest)))"
    by (simp add: envCreateFails_def demoRefusal_def succeeded_def)
  from saga_create_order_fails [OF demoWorld_started c1]
  show ?thesis
    by (simp add: attempted_def envCreateFails_def demoRequest_def demoWorld_eq)
qed

lemma executeSaga_terminal:
  assumes tx: "transactions w tid = Some t" "Steps t = []"
  shows "\<exists>t'. transactions (executeSaga e tid req w) tid = Some t'
     \<and> (Status t' = TransactionStatusCompleted \<or> Status t' = TransactionStatusFailed)"
proof -
  have u: "unstarted tid w" using tx by (simp add: unstarted_def)
  let ?c1 = "CreateOrderReq (req_CustomerID req) (req_Items req) (req_Amount req)"
  show ?thesis
  proof (cases "succeeded (respond e ?c1)")
    case False
    show ?thesis
      unfolding executeSaga_create_fail [OF u False]
      using tx by (simp add: ledgered_def updateTransactionStatus_def Let_def)
  next
    case True
    then obtain r1 where r1: "respond e ?c1 = Reply r1" "resp_Success r1"
      by (auto simp: succeeded_def split: outcome.splits)
    let ?c2 = "ProcessPaymentReq (resp_OrderID r1) (req_Amount req)"
    show ?thesis
    proof (cases "succeeded (respond e ?c2)")
      case False
      show ?thesis
        unfolding executeSaga_payment_fail [OF u r1 False]
        using tx
        by (simp add: ledgered_def recordOrderID_def updateTransactionStatus_def Let_def)
    next
      case True
      then obtain r2 where r2: "respond e ?c2 = Reply r2" "resp_Success r2"
        by (auto simp: succeeded_def split: outcome.splits)
      let ?c3 = "StartShippingReq (resp_OrderID r1) (req_Address req)"
      show ?thesis
      proof (cases "succeeded (respond e ?c3)")
        case False
        show ?thesis
          unfolding executeSaga_shipping_fail [OF u r1 r2 False]
          using tx
          by (simp add: ledgered_def recordOrderID_def updateTransactionStatus_def Let_def)
      next
        case True
        then obtain r3 where r3: "respond e ?c3 = Reply r3" "resp_Success r3"
          by (auto simp: succeeded_def split: outcome.splits)
        show ?thesis
          unfolding executeSaga_all_ok [OF u r1 r2 r3]
          using tx
          by (simp add: ledgered_def recordOrderID_def updateTransactionStatus_def Let_def)
      qed
    qed
  qed
qed

subsection \<open>Compensating calls\<close>




subsection \<open>Ending a step\<close>

lemma updateStepLoop_absent:
  "name \<notin> set (map step_Name xs) \<Longrightarrow> updateStepLoop name ok err now xs = xs"
  by (induction xs) auto

lemma updateStepLoop_first:
  "name \<notin> set (map step_Name pre) \<Longrightarrow> step_Name s = name \<Longrightarrow>
   updateStepLoop name ok err now (pre @ s # post) =
     pre @ (if ok then s\<lparr>step_Status := TransactionStatusCompleted, step_EndedAt := now\<rparr>
            else s\<lparr>step_Status := TransactionStatusFailed, step_Error := err,
                    step_EndedAt := now\<rparr>) # post"
  by (induction pre) auto

text \<open>
  Claim C4, as stated, fails. In \<open>repeatedStepWorld\<close> the most recent CANCEL_ORDER step
  without an end timestamp is the third step, yet ending CANCEL_ORDER rewrites the second
  step, which had ended, and leaves the third open. And although no CREATE_ORDER step
  is open, ending CREATE_ORDER changes the transaction.
\<close>

theorem updateStepStatus_counterexample:
  "map step_Name (Steps repeatedStepTransaction) =
     [''CREATE_ORDER'', ''CANCEL_ORDER'', ''CANCEL_ORDER'']
   \<and> map step_EndedAt (Steps repeatedStepTransaction) = [At 2, At 4, ZeroTime]
   \<and> transactions repeatedStepWorld ''TRX-1'' = Some repeatedStepTransaction
   \<and> map step_Status (Steps (the (transactions
        (updateStepStatus ''TRX-1'' ''CANCEL_ORDER'' False ''boom'' repeatedStepWorld)
        ''TRX-1''))) =
      [TransactionStatusCompleted, TransactionStatusFailed, TransactionStatusPending]
   \<and> map step_EndedAt (Steps (the (transactions
        (updateStepStatus ''TRX-1'' ''CANCEL_ORDER'' False ''boom'' repeatedStepWorld)
        ''TRX-1''))) =
      [At 2, At 6, ZeroTime]
   \<and> transactions (updateStepStatus ''TRX-1'' ''CREATE_ORDER'' False ''boom''
        repeatedStepWorld) ''TRX-1'' \<noteq> Some repeatedStepTransaction"
  by (simp add: updateStepStatus_def repeatedStepWorld_def repeatedStepTransaction_def)

text \<open>
  Claim C4, amended. For a stored transaction, \<open>updateStepStatus\<close> updates the first
  step of the sequence that has the given name, whether or not that step already has an
  end timestamp: it sets the status to COMPLETED or FAILED, the end timestamp to the
  clock reading and, on failure, the error text; nothing else in the store changes. If
  no step has that name, the store is left unchanged.
\<close>

theorem updateStepStatus_first_named:
  assumes tx: "transactions w tid = Some t"
  shows "(stepName \<notin> set (map step_Name (Steps t)) \<longrightarrow>
            transactions (updateStepStatus tid stepName success errorMsg w) = transactions w)
   \<and> (\<forall>pre s post. Steps t = pre @ s # post \<and> stepName \<notin> set (map step_Name pre)
          \<and> step_Name s = stepName \<longrightarrow>
        transactions (updateStepStatus tid stepName success errorMsg w) =
          (transactions w)(tid \<mapsto> t\<lparr>Steps := pre @
             (if success
              then s\<lparr>step_Status := TransactionStatusCompleted, step_EndedAt := At (clock w)\<rparr>
              else s\<lparr>step_Status := TransactionStatusFailed, step_Error := errorMsg,
                      step_EndedAt := At (clock w)\<rparr>) # post\<rparr>))"
proof (intro conjI impI allI)
  assume "stepName \<notin> set (map step_Name (Steps t))"
  then have "updateStepLoop stepName success errorMsg (At (clock w)) (Steps t) = Steps t"
    by (rule updateStepLoop_absent)
  with tx show "transactions (updateStepStatus tid stepName success errorMsg w) = transactions w"
    by (simp add: updateStepStatus_def map_upd_triv)
next
  fix pre s post
  assume h: "Steps t = pre @ s # post \<and> stepName \<notin> set (map step_Name pre)
          \<and> step_Name s = stepName"
  then have "updateStepLoop stepName success errorMsg (At (clock w)) (Steps t) =
     pre @ (if success
            then s\<lparr>step_Status := TransactionStatusCompleted, step_EndedAt := At (clock w)\<rparr>
            else s\<lparr>step_Status := TransactionStatusFailed, step_Error := errorMsg,
                    step_EndedAt := At (clock w)\<rparr>) # post"
    by (simp add: updateStepLoop_first)
  with tx show "transactions (updateStepStatus tid stepName success errorMsg w) =
          (transactions w)(tid \<mapsto> t\<lparr>Steps := pre @
             (if success
              then s\<lparr>step_Status := TransactionStatusCompleted, step_EndedAt := At (clock w)\<rparr>
              else s\<lparr>step_Status := TransactionStatusFailed, step_Error := errorMsg,
                      step_EndedAt := At (clock w)\<rparr>) # post\<rparr>)"
    by (simp add: updateStepStatus_def)
qed

theorem updateStepStatus_first_named_witness:
  "transactions (updateStepStatus ''TRX-1'' ''PROCESS_PAYMENT'' True [] repeatedStepWorld) =
     transactions repeatedStepWorld
   \<and> map step_Status (Steps (the (transactions
        (updateStepStatus ''TRX-1'' ''CANCEL_ORDER'' True [] repeatedStepWorld) ''TRX-1''))) =
      [TransactionStatusCompleted, TransactionStatusCompleted, TransactionStatusPending]
   \<and> map step_EndedAt (Steps (the (transactions
        (updateStepStatus ''TRX-1'' ''CANCEL_ORDER'' True [] repeatedStepWorld) ''TRX-1''))) =
      [At 2, At 6, ZeroTime]"
proof -
  have tx: "transactions repeatedStepWorld ''TRX-1'' = Some repeatedStepTransaction"
    by (simp add: repeatedStepWorld_def)
  have absent: "''PROCESS_PAYMENT'' \<notin> set (map step_Name (Steps repeatedStepTransaction))"
    by (simp add: repeatedStepTransaction_def)
  have split: "Steps repeatedStepTransaction =
      [hd (Steps repeatedStepTransaction)] @ (Steps repeatedStepTransaction ! 1) #
      [Steps repeatedStepTransaction ! 2]
    \<and> ''CANCEL_ORDER'' \<notin> set (map step_Name [hd (Steps repeatedStepTransaction)])
    \<and> step_Name (Steps repeatedStepTransaction ! 1) = ''CANCEL_ORDER''"
    by (simp add: repeatedStepTransaction_def)
  note thm1 = updateStepStatus_first_named [OF tx, of "''PROCESS_PAYMENT''" True "[]"]
  note thm2 = updateStepStatus_first_named [OF tx, of "''CANCEL_ORDER''" True "[]"]
  from thm1 absent
  have a: "transactions (updateStepStatus ''TRX-1'' ''PROCESS_PAYMENT'' True [] repeatedStepWorld)
      = transactions repeatedStepWorld"
    by blast
  from thm2 split
  have "transactions (updateStepStatus ''TRX-1'' ''CANCEL_ORDER'' True [] repeatedStepWorld) =
     (transactions repeatedStepWorld)(''TRX-1'' \<mapsto> repeatedStepTransaction\<lparr>Steps :=
        [hd (Steps repeatedStepTransaction)] @
        (if True
         then (Steps repeatedStepTransaction ! 1)\<lparr>step_Status := TransactionStatusCompleted,
                 step_EndedAt := At (clock repeatedStepWorld)\<rparr>
         else (Steps repeatedStepTransaction ! 1)\<lparr>step_Status := TransactionStatusFailed,
                 step_Error := [], step_EndedAt := At (clock repeatedStepWorld)\<rparr>) #
        [Steps repeatedStepTransaction ! 2]\<rparr>)"
    by blast
  then have b: "map step_Status (Steps (the (transactions
        (updateStepStatus ''TRX-1'' ''CANCEL_ORDER'' True [] repeatedStepWorld) ''TRX-1''))) =
      [TransactionStatusCompleted, TransactionStatusCompleted, TransactionStatusPending]
   \<and> map step_EndedAt (Steps (the (transactions
        (updateStepStatus ''TRX-1'' ''CANCEL_ORDER'' True [] repeatedStepWorld) ''TRX-1''))) =
      [At 2, At 6, ZeroTime]"
    by (simp add: repeatedStepTransaction_def repeatedStepWorld_def)
  from a b show ?thesis by simp
qed

subsection \<open>The transaction status\<close>

text \<open>
  Claim C9. For a stored transaction, \<open>updateTransactionStatus\<close> sets the status and
  leaves the id, order id, customer id, amount, address, creation time and steps of the
  transaction as they were; the failure reason changes only when the new status is
  FAILED; every other transaction of the store is unchanged.
\<close>

theorem updateTransactionStatus_frame:
  assumes tx: "transactions w tid = Some t"
  shows "\<exists>t'. transactions (updateTransactionStatus tid status failureReason w) tid = Some t'
     \<and> Status t' = status
     \<and> ID t' = ID t \<and> OrderID t' = OrderID t \<and> CustomerID t' = CustomerID t
     \<and> Amount t' = Amount t \<and> Address t' = Address t \<and> CreatedAt t' = CreatedAt t
     \<and> Steps t' = Steps t
     \<and> (status \<noteq> TransactionStatusFailed \<longrightarrow> FailureReason t' = FailureReason t)
     \<and> (\<forall>other. other \<noteq> tid \<longrightarrow>
           transactions (updateTransactionStatus tid status failureReason w) other =
           transactions w other)"
  using tx by (simp add: updateTransactionStatus_def Let_def)

theorem updateTransactionStatus_frame_witness:
  "\<exists>t'. transactions (updateTransactionStatus ''TRX-1'' TransactionStatusCompleted []
            repeatedStepWorld) ''TRX-1'' = Some t'
     \<and> Status t' = TransactionStatusCompleted
     \<and> ID t' = ''TRX-1'' \<and> OrderID t' = ''ORD-1'' \<and> CustomerID t' = ''CUST-7''
     \<and> Amount t' = 10 \<and> Address t' = ''Jl. Merdeka 1'' \<and> CreatedAt t' = At 0
     \<and> Steps t' = Steps repeatedStepTransaction
     \<and> FailureReason t' = []
     \<and> transactions (updateTransactionStatus ''TRX-1'' TransactionStatusCompleted []
            repeatedStepWorld) ''TRX-2'' = None"
proof -
  have tx: "transactions repeatedStepWorld ''TRX-1'' = Some repeatedStepTransaction"
    by (simp add: repeatedStepWorld_def)
  from updateTransactionStatus_frame [OF tx, of TransactionStatusCompleted "[]"]
  obtain t' where t': "transactions (updateTransactionStatus ''TRX-1''
        TransactionStatusCompleted [] repeatedStepWorld) ''TRX-1'' = Some t'"
     "Status t' = TransactionStatusCompleted"
     "ID t' = ID repeatedStepTransaction" "OrderID t' = OrderID repeatedStepTransaction"
     "CustomerID t' = CustomerID repeatedStepTransaction"
     "Amount t' = Amount repeatedStepTransaction"
     "Address t' = Address repeatedStepTransaction"
     "CreatedAt t' = CreatedAt repeatedStepTransaction"
     "Steps t' = Steps repeatedStepTransaction"
     "FailureReason t' = FailureReason repeatedStepTransaction"
     "transactions (updateTransactionStatus ''TRX-1'' TransactionStatusCompleted []
            repeatedStepWorld) ''TRX-2'' = transactions repeatedStepWorld ''TRX-2''"
    by auto
  then show ?thesis
    by (simp add: repeatedStepTransaction_def repeatedStepWorld_def)
qed

subsection \<open>Starting a saga\<close>

text \<open>
  Claim C7. A start-saga request (a POST whose body decodes) with an empty customer id,
  an amount that is not positive, or an empty address is answered with status 400; the
  handler starts no saga task and returns the state as it was, so that the store and
  the id counter are unchanged.
\<close>

theorem invalid_request_rejected:
  assumes "http_Method r = ''POST''" and "http_Body r = Some req"
    and "req_CustomerID req = [] \<or> req_Amount req \<le> 0 \<or> req_Address req = []"
  shows "\<exists>msg. createOrderSagaHandler r w = (HttpError msg StatusBadRequest, None, w)"
  using assms by (auto simp: createOrderSagaHandler_def)

theorem invalid_request_rejected_witness:
  "\<exists>msg. createOrderSagaHandler
      \<lparr>http_Method = ''POST'', http_Body = Some (demoRequest\<lparr>req_Amount := 0\<rparr>)\<rparr> demoWorld =
     (HttpError msg StatusBadRequest, None, demoWorld)"
  by (rule invalid_request_rejected [where req = "demoRequest\<lparr>req_Amount := 0\<rparr>"]) simp_all

text \<open>
  Claim C10. The transaction in the reply to an accepted start-saga request has no steps,
  an empty order id, an empty failure reason and an unset completion time. It is the value
  stored when the request was accepted; the saga that runs afterwards changes the stored
  transaction, whatever the participants answer, and the value in the reply is not the
  stored one any more.
\<close>

theorem accepted_snapshot_blank:
  assumes started: "createOrderSagaHandler r w = (resp, Some (tid, req), w1)"
  shows "\<exists>tr. resp = Json StatusAccepted tr
     \<and> Steps (tr_Transaction tr) = [] \<and> OrderID (tr_Transaction tr) = []
     \<and> FailureReason (tr_Transaction tr) = [] \<and> CompletedAt (tr_Transaction tr) = ZeroTime
     \<and> transactions w1 tid = Some (tr_Transaction tr)
     \<and> (\<forall>e. transactions (executeSaga e tid req w1) tid \<noteq> Some (tr_Transaction tr))"
proof -
  note v = handler_valid [OF started]
  let ?t = "\<lparr>ID = tid, OrderID = [], CustomerID = req_CustomerID req,
              Amount = req_Amount req, Address = req_Address req,
              Status = TransactionStatusPending, CreatedAt = At (clock w),
              CompletedAt = ZeroTime, FailureReason = [], Steps = []\<rparr>"
  from v have w1: "transactions w1 tid = Some ?t" by simp
  have "transactions (executeSaga e tid req w1) tid \<noteq> Some ?t" for e
    using executeSaga_terminal [OF w1, of e req] by auto
  with v w1 show ?thesis by simp
qed

theorem accepted_snapshot_blank_witness:
  "\<exists>tr. fst (createOrderSagaHandler demoHttp (initWorld 0)) = Json StatusAccepted tr
     \<and> Steps (tr_Transaction tr) = [] \<and> OrderID (tr_Transaction tr) = []
     \<and> FailureReason (tr_Transaction tr) = [] \<and> CompletedAt (tr_Transaction tr) = ZeroTime
     \<and> transactions demoWorld ''TRX-1'' = Some (tr_Transaction tr)
     \<and> (\<forall>e. transactions (executeSaga e ''TRX-1'' demoRequest demoWorld) ''TRX-1''
            \<noteq> Some (tr_Transaction tr))"
  by (rule accepted_snapshot_blank [OF demoWorld_started])

subsection \<open>A saga as a sequence of atomic actions\<close>

lemma createOrder_actions:
  "createOrder e tid req w =
     ((if succeeded (respond e (CreateOrderReq (req_CustomerID req) (req_Items req) (req_Amount req)))
       then Inr (orderIDOf (respond e (CreateOrderReq (req_CustomerID req) (req_Items req) (req_Amount req))))
       else Inl (callError e (respond e (CreateOrderReq (req_CustomerID req) (req_Items req) (req_Amount req))))),
      fold perform (forwardActions tid ''CREATE_ORDER''
        (CreateOrderReq (req_CustomerID req) (req_Items req) (req_Amount req))
        (respond e (CreateOrderReq (req_CustomerID req) (req_Items req) (req_Amount req)))) w)"
  by (cases "respond e (CreateOrderReq (req_CustomerID req) (req_Items req) (req_Amount req))")
     (simp_all add: createOrder_def forwardActions_def succeeded_def orderIDOf_def
        callError_def ledgerError_def)

lemma processPayment_actions:
  "processPayment e tid oid amt w =
     ((if succeeded (respond e (ProcessPaymentReq oid amt)) then None
       else Some (callError e (respond e (ProcessPaymentReq oid amt)))),
      fold perform (forwardActions tid ''PROCESS_PAYMENT'' (ProcessPaymentReq oid amt)
        (respond e (ProcessPaymentReq oid amt))) w)"
  by (cases "respond e (ProcessPaymentReq oid amt)")
     (simp_all add: processPayment_def forwardActions_def succeeded_def
        callError_def ledgerError_def)

lemma startShipping_actions:
  "startShipping e tid oid addr w =
     ((if succeeded (respond e (StartShippingReq oid addr)) then None
       else Some (callError e (respond e (StartShippingReq oid addr)))),
      fold perform (forwardActions tid ''START_SHIPPING'' (StartShippingReq oid addr)
        (respond e (StartShippingReq oid addr))) w)"
  by (cases "respond e (StartShippingReq oid addr)")
     (simp_all add: startShipping_def forwardActions_def succeeded_def
        callError_def ledgerError_def)

lemma cancelOrder_actions:
  "cancelOrder e tid oid w =
     fold perform (compensationActions tid ''CANCEL_ORDER'' (CancelOrderReq oid)
       (respond e (CancelOrderReq oid))) w"
  by (cases "respond e (CancelOrderReq oid)")
     (simp_all add: cancelOrder_def compensationActions_def delivered_def ledgerError_def)

lemma refundPayment_actions:
  "refundPayment e tid oid w =
     fold perform (compensationActions tid ''REFUND_PAYMENT'' (RefundPaymentReq oid)
       (respond e (RefundPaymentReq oid))) w"
  by (cases "respond e (RefundPaymentReq oid)")
     (simp_all add: refundPayment_def compensationActions_def delivered_def ledgerError_def)

lemma executeSaga_actions:
  "executeSaga e tid req w = fold perform (sagaActions e tid req) w"
  by (simp add: executeSaga_def sagaActions_def createOrder_actions processPayment_actions
        startShipping_actions cancelOrder_actions refundPayment_actions Let_def)

lemma ledgerAction_forward: "a \<in> set (forwardActions tid name call oc) \<Longrightarrow> ledgerAction tid a"
  by (cases oc) (auto simp: forwardActions_def ledgerAction_def)

lemma ledgerAction_compensation:
  "a \<in> set (compensationActions tid name call oc) \<Longrightarrow> ledgerAction tid a"
  by (cases oc) (auto simp: compensationActions_def ledgerAction_def)

lemma sagaRest_append:
  "\<forall>a \<in> set pre. ledgerAction tid a \<Longrightarrow> sagaRest tid rest \<Longrightarrow> sagaRest tid (pre @ rest)"
proof (induction pre)
  case Nil
  then show ?case by simp
next
  case (Cons a pre)
  then have rest: "sagaRest tid (pre @ rest)" by simp
  then obtain b bs where "pre @ rest = b # bs" by (cases "pre @ rest") auto
  with Cons.prems rest show ?case by simp
qed

lemma sagaRest_Cons: "ledgerAction tid a \<Longrightarrow> sagaRest tid rest \<Longrightarrow> sagaRest tid (a # rest)"
  using sagaRest_append [of "[a]" tid rest] by simp

lemma sagaRest_if:
  "(b \<Longrightarrow> sagaRest tid x) \<Longrightarrow> (\<not> b \<Longrightarrow> sagaRest tid y) \<Longrightarrow> sagaRest tid (if b then x else y)"
  by simp

lemma sagaRest_RecordOrderID:
  "sagaRest tid rest \<Longrightarrow> sagaRest tid (RecordOrderID tid oid # rest)"
  by (rule sagaRest_Cons) (simp_all add: ledgerAction_def)

lemma sagaRest_sagaActions: "sagaRest tid (sagaActions e tid req)"
  unfolding sagaActions_def Let_def
  by (intro sagaRest_append sagaRest_RecordOrderID sagaRest_if ballI)
     (simp_all add: ledgerAction_forward ledgerAction_compensation)

subsection \<open>What one action changes\<close>

lemma perform_nextID: "nextID (perform a w) = nextID w"
  by (cases a)
     (simp_all add: addStep_def httpPost_def updateStepStatus_def recordOrderID_def
        updateTransactionStatus_def Let_def split: option.splits)

lemma perform_ledger_other:
  "ledgerAction tid a \<Longrightarrow> other \<noteq> tid \<Longrightarrow>
   transactions (perform a w) other = transactions w other"
  by (cases a)
     (simp_all add: ledgerAction_def addStep_def httpPost_def updateStepStatus_def
        recordOrderID_def Let_def split: option.splits)

lemma updateTransactionStatus_other:
  "other \<noteq> tid \<Longrightarrow>
   transactions (updateTransactionStatus tid st r w) other = transactions w other"
  by (simp add: updateTransactionStatus_def Let_def split: option.splits)

lemma perform_ledger_same:
  "ledgerAction tid a \<Longrightarrow> transactions w tid = Some t \<Longrightarrow>
   \<exists>t'. transactions (perform a w) tid = Some t' \<and> Status t' = Status t
        \<and> CompletedAt t' = CompletedAt t"
  by (cases a)
     (simp_all add: ledgerAction_def addStep_def httpPost_def updateStepStatus_def
        recordOrderID_def Let_def split: option.splits)

lemma perform_final_same:
  "terminal st \<Longrightarrow> transactions w tid = Some t \<Longrightarrow>
   \<exists>t'. transactions (perform (UpdateTransactionStatus tid st r) w) tid = Some t'
        \<and> Status t' = st \<and> CompletedAt t' \<noteq> ZeroTime"
  by (auto simp: updateTransactionStatus_def Let_def terminal_def)

lemma sagaRest_head:
  "sagaRest tid (a # rest) \<Longrightarrow>
   (rest = [] \<and> (\<exists>st r. a = UpdateTransactionStatus tid st r \<and> terminal st))
   \<or> (rest \<noteq> [] \<and> ledgerAction tid a \<and> sagaRest tid rest)"
  by (cases rest; cases a) (auto simp: terminal_def)

lemma wellStatused_terminal:
  "terminal (Status t) \<Longrightarrow> CompletedAt t \<noteq> ZeroTime \<Longrightarrow> wellStatused t"
  by (auto simp: wellStatused_def terminal_def)

lemma wellStatused_cong:
  "Status t' = Status t \<Longrightarrow> CompletedAt t' = CompletedAt t \<Longrightarrow>
   wellStatused t' = wellStatused t"
  by (simp add: wellStatused_def)

lemma handler_rejects:
  "createOrderSagaHandler r w = (resp, None, w1) \<Longrightarrow> w1 = w"
  by (auto simp: createOrderSagaHandler_def Let_def split: if_splits option.splits)

lemma handler_accepts_iff_json:
  "createOrderSagaHandler r w = (Json code tr, spawn, w1) \<Longrightarrow> \<exists>tid req. spawn = Some (tid, req)"
  by (auto simp: createOrderSagaHandler_def Let_def split: if_splits option.splits)

subsection \<open>The invariant holds in every reachable state\<close>

lemma invariant_tx:
  "invariant s \<Longrightarrow> transactions (store s) tid = Some t \<Longrightarrow>
   wellStatused t \<and> (\<exists>n. n < nextID (store s) \<and> tid = ''TRX-'' @ itoa n)"
  unfolding invariant_def by blast

lemma invariant_distinct: "invariant s \<Longrightarrow> distinct (map fst (tasks s))"
  unfolding invariant_def by blast

lemma invariant_task:
  "invariant s \<Longrightarrow> (tid, as) \<in> set (tasks s) \<Longrightarrow>
   \<exists>t. transactions (store s) tid = Some t
      \<and> (as = [] \<or> (sagaRest tid as \<and> Status t = TransactionStatusPending))"
  unfolding invariant_def by fastforce

lemma invariantI:
  assumes "\<And>tid t. transactions (store s) tid = Some t \<Longrightarrow>
      wellStatused t \<and> (\<exists>n. n < nextID (store s) \<and> tid = ''TRX-'' @ itoa n)"
    and "distinct (map fst (tasks s))"
    and "\<And>tid as. (tid, as) \<in> set (tasks s) \<Longrightarrow>
      \<exists>t. transactions (store s) tid = Some t
        \<and> (as = [] \<or> (sagaRest tid as \<and> Status t = TransactionStatusPending))"
  shows "invariant s"
  unfolding invariant_def using assms by auto

lemma invariant_initial: "invariant (initial c)"
  by (simp add: invariant_def initial_def initWorld_def)

lemma invariant_fresh_id:
  assumes "invariant s"
  shows "transactions (store s) (''TRX-'' @ itoa (nextID (store s))) = None"
proof (rule ccontr)
  assume "transactions (store s) (''TRX-'' @ itoa (nextID (store s))) \<noteq> None"
  then obtain t where "transactions (store s) (''TRX-'' @ itoa (nextID (store s))) = Some t"
    by auto
  with assms obtain n where n: "n < nextID (store s)"
    "''TRX-'' @ itoa (nextID (store s)) = ''TRX-'' @ itoa n"
    unfolding invariant_def by blast
  then have "itoa (nextID (store s)) = itoa n" by simp
  then have "nextID (store s) = n" by (rule itoa_inj)
  with n show False by simp
qed

lemma invariant_request:
  assumes inv: "invariant s"
  shows "invariant (snd (startSaga e r s))"
proof -
  obtain resp spawn w1 where h: "createOrderSagaHandler r (store s) = (resp, spawn, w1)"
    by (cases "createOrderSagaHandler r (store s)") auto
  show ?thesis
  proof (cases spawn)
    case None
    with h have "w1 = store s" by (simp add: handler_rejects)
    with h None inv show ?thesis by (simp add: startSaga_def)
  next
    case (Some p)
    obtain tid req where p: "p = (tid, req)" by (cases p) auto
    note v = handler_valid [OF h [unfolded Some p]]
    let ?t = "\<lparr>ID = tid, OrderID = [], CustomerID = req_CustomerID req,
                Amount = req_Amount req, Address = req_Address req,
                Status = TransactionStatusPending, CreatedAt = At (clock (store s)),
                CompletedAt = ZeroTime, FailureReason = [], Steps = []\<rparr>"
    from v have tid: "tid = ''TRX-'' @ itoa (nextID (store s))" by simp
    from v have tx1: "transactions w1 = (transactions (store s))(tid \<mapsto> ?t)"
      and n1: "nextID w1 = nextID (store s) + 1" by simp_all
    have new: "transactions (store s) tid = None"
      unfolding tid using inv by (rule invariant_fresh_id)
    have s': "snd (startSaga e r s) =
        \<lparr>store = w1, tasks = tasks s @ [(tid, sagaActions e tid req)]\<rparr>"
      using h Some p by (simp add: startSaga_def)
    have a: "wellStatused t' \<and> (\<exists>n. n < nextID w1 \<and> tid' = ''TRX-'' @ itoa n)"
      if "transactions w1 tid' = Some t'" for tid' t'
    proof (cases "tid' = tid")
      case True
      with that tx1 have "t' = ?t" by simp
      then have "wellStatused t'" by (simp add: wellStatused_def)
      moreover have "nextID (store s) < nextID w1" using n1 by simp
      ultimately show ?thesis using True tid by blast
    next
      case False
      with that tx1 have "transactions (store s) tid' = Some t'" by simp
      with inv obtain n where "wellStatused t'" "n < nextID (store s)" "tid' = ''TRX-'' @ itoa n"
        unfolding invariant_def by blast
      with n1 show ?thesis by (intro conjI exI [of _ n]) simp_all
    qed
    have old: "fst task \<noteq> tid" if "task \<in> set (tasks s)" for task
      using inv that new unfolding invariant_def by fastforce
    have b: "distinct (map fst (tasks s @ [(tid, sagaActions e tid req)]))"
      using inv old unfolding invariant_def by auto
    have c: "\<exists>t. transactions w1 (fst task) = Some t
            \<and> (snd task = [] \<or>
                (sagaRest (fst task) (snd task) \<and> Status t = TransactionStatusPending))"
      if "task \<in> set (tasks s @ [(tid, sagaActions e tid req)])" for task
    proof (cases "task \<in> set (tasks s)")
      case True
      with old have "fst task \<noteq> tid" by simp
      then have "transactions w1 (fst task) = transactions (store s) (fst task)"
        using tx1 by simp
      with inv True show ?thesis unfolding invariant_def by fastforce
    next
      case False
      with that have "task = (tid, sagaActions e tid req)" by simp
      then show ?thesis using tx1 by (simp add: sagaRest_sagaActions)
    qed
    show ?thesis
      unfolding s' invariant_def using a b c by simp
  qed
qed

lemma invariant_advance:
  assumes inv: "invariant s"
    and tasks: "tasks s = before @ (tid, a # rest) # after"
  shows "invariant \<lparr>store = perform a (store s), tasks = before @ (tid, rest) # after\<rparr>"
proof (rule invariantI)
  let ?w = "store s" and ?w' = "perform a (store s)"
  have "(tid, a # rest) \<in> set (tasks s)" using tasks by simp
  from invariant_task [OF inv this]
  obtain t where t: "transactions ?w tid = Some t"
    "sagaRest tid (a # rest)" "pending t"
    by (auto simp: pending_def)
  from invariant_tx [OF inv t(1)] have wt: "wellStatused t" by simp
  from invariant_distinct [OF inv] tasks
  have dist: "distinct (map fst (before @ (tid, a # rest) # after))" by simp
  have other: "transactions ?w' other = transactions ?w other" if "other \<noteq> tid" for other
    using sagaRest_head [OF t(2)]
  proof
    assume "rest = [] \<and> (\<exists>st r. a = UpdateTransactionStatus tid st r \<and> terminal st)"
    then obtain st r where "a = UpdateTransactionStatus tid st r" by blast
    with that show ?thesis by (simp add: updateTransactionStatus_other)
  next
    assume "rest \<noteq> [] \<and> ledgerAction tid a \<and> sagaRest tid rest"
    then have "ledgerAction tid a" by simp
    then show ?thesis using that by (rule perform_ledger_other)
  qed
  have "\<exists>t'. transactions ?w' tid = Some t' \<and> wellStatused t'
     \<and> (rest = [] \<or> (sagaRest tid rest \<and> pending t'))"
    using sagaRest_head [OF t(2)]
  proof
    assume fin: "rest = [] \<and> (\<exists>st r. a = UpdateTransactionStatus tid st r \<and> terminal st)"
    then obtain st r where a: "a = UpdateTransactionStatus tid st r"
      and st: "terminal st" by blast
    from perform_final_same [OF st t(1), of r] obtain u
      where u: "transactions ?w' tid = Some u" "Status u = st" "CompletedAt u \<noteq> ZeroTime"
      unfolding a by blast
    from u(2,3) st have "wellStatused u" by (simp add: wellStatused_terminal)
    with u(1) fin show ?thesis by blast
  next
    assume led: "rest \<noteq> [] \<and> ledgerAction tid a \<and> sagaRest tid rest"
    then have "ledgerAction tid a" by simp
    from perform_ledger_same [OF this t(1)] obtain u
      where u: "transactions ?w' tid = Some u" "Status u = Status t"
        "CompletedAt u = CompletedAt t" by blast
    from wellStatused_cong [OF u(2) u(3)] wt have "wellStatused u" by simp
    moreover have "pending u" using u(2) t(3) by (simp add: pending_def)
    ultimately show ?thesis using u(1) led by blast
  qed
  then obtain t' where t': "transactions ?w' tid = Some t'" "wellStatused t'"
    "rest = [] \<or> (sagaRest tid rest \<and> pending t')"
    by blast
  let ?s' = "\<lparr>store = perform a (store s), tasks = before @ (tid, rest) # after\<rparr>"
  show "wellStatused u \<and> (\<exists>n. n < nextID (store ?s') \<and> tid' = ''TRX-'' @ itoa n)"
    if h: "transactions (store ?s') tid' = Some u" for tid' u
  proof (cases "tid' = tid")
    case True
    with h t' have "wellStatused u" by simp
    moreover from invariant_tx [OF inv t(1)]
    have "\<exists>n. n < nextID ?w \<and> tid = ''TRX-'' @ itoa n" by simp
    then have "\<exists>n. n < nextID (store ?s') \<and> tid' = ''TRX-'' @ itoa n"
      using True by (simp add: perform_nextID)
    ultimately show ?thesis by simp
  next
    case False
    with h other have "transactions ?w tid' = Some u" by simp
    from invariant_tx [OF inv this] show ?thesis by (simp add: perform_nextID)
  qed
  show "distinct (map fst (tasks ?s'))" using dist by simp
  show "\<exists>u. transactions (store ?s') tid' = Some u
            \<and> (as = [] \<or> (sagaRest tid' as \<and> Status u = TransactionStatusPending))"
    if h: "(tid', as) \<in> set (tasks ?s')" for tid' as
  proof (cases "(tid', as) = (tid, rest)")
    case True
    with t' show ?thesis by (simp add: pending_def)
  next
    case False
    with h have mem: "(tid', as) \<in> set before \<or> (tid', as) \<in> set after" by auto
    then have "tid' \<in> fst ` set before \<or> tid' \<in> fst ` set after" by force
    with dist have "tid' \<noteq> tid" by auto
    then have same: "transactions ?w' tid' = transactions ?w tid'" by (rule other)
    from mem tasks have "(tid', as) \<in> set (tasks s)" by auto
    from invariant_task [OF inv this] same show ?thesis by simp
  qed
qed

lemma invariant_transition: "invariant s \<Longrightarrow> transition s s' \<Longrightarrow> invariant s'"
  by (erule transition.cases) (simp_all add: invariant_request invariant_advance)

lemma invariant_reachable: "reachable s \<Longrightarrow> invariant s"
  by (induction rule: reachable.induct) (simp_all add: invariant_initial invariant_transition)

lemma sagaRest_other:
  assumes "sagaRest tid (a # rest)" and "other \<noteq> tid"
  shows "transactions (perform a w) other = transactions w other"
  using sagaRest_head [OF assms(1)]
proof
  assume "rest = [] \<and> (\<exists>st r. a = UpdateTransactionStatus tid st r \<and> terminal st)"
  then obtain st r where "a = UpdateTransactionStatus tid st r" by blast
  with assms(2) show ?thesis by (simp add: updateTransactionStatus_other)
next
  assume "rest \<noteq> [] \<and> ledgerAction tid a \<and> sagaRest tid rest"
  then have "ledgerAction tid a" by simp
  then show ?thesis using assms(2) by (rule perform_ledger_other)
qed

lemma perform_keeps:
  "transactions w tid = Some t \<Longrightarrow> \<exists>t'. transactions (perform a w) tid = Some t'"
  by (cases a)
     (auto simp: addStep_def httpPost_def updateStepStatus_def recordOrderID_def
        updateTransactionStatus_def Let_def split: option.splits)

lemma startSaga_accepted:
  assumes "startSaga e r s = (Json code tr, s1)"
  shows "\<exists>req. code = StatusAccepted
     \<and> tr_Transaction tr =
         \<lparr>ID = ''TRX-'' @ itoa (nextID (store s)), OrderID = [],
          CustomerID = req_CustomerID req, Amount = req_Amount req,
          Address = req_Address req, Status = TransactionStatusPending,
          CreatedAt = At (clock (store s)), CompletedAt = ZeroTime, FailureReason = [],
          Steps = []\<rparr>
     \<and> transactions (store s1) =
         (transactions (store s))(''TRX-'' @ itoa (nextID (store s)) \<mapsto> tr_Transaction tr)
     \<and> nextID (store s1) = nextID (store s) + 1
     \<and> tasks s1 = tasks s @ [(''TRX-'' @ itoa (nextID (store s)),
           sagaActions e (''TRX-'' @ itoa (nextID (store s))) req)]"
proof -
  obtain resp spawn w1 where h: "createOrderSagaHandler r (store s) = (resp, spawn, w1)"
    by (cases "createOrderSagaHandler r (store s)") auto
  with assms have resp: "resp = Json code tr"
    by (auto simp: startSaga_def split: option.splits)
  from handler_accepts_iff_json [OF h [unfolded resp]]
  obtain tid req where spawn: "spawn = Some (tid, req)" by blast
  note v = handler_valid [OF h [unfolded spawn]]
  from assms h spawn
  have s1: "s1 = \<lparr>store = w1, tasks = tasks s @ [(tid, sagaActions e tid req)]\<rparr>"
    by (simp add: startSaga_def)
  from v resp s1 show ?thesis by (intro exI [of _ req]) simp
qed

lemma startSaga_snd: "startSaga e r s = (resp, s1) \<Longrightarrow> transition s s1"
  using transition.request [of s e r] by simp

lemma transition_nextID: "transition s s' \<Longrightarrow> nextID (store s) \<le> nextID (store s')"
proof (induction rule: transition.induct)
  case (request s e r)
  obtain resp spawn w1 where h: "createOrderSagaHandler r (store s) = (resp, spawn, w1)"
    by (cases "createOrderSagaHandler r (store s)") auto
  show ?case
  proof (cases spawn)
    case None
    with h have "w1 = store s" by (auto dest: handler_rejects)
    with h None show ?thesis by (simp add: startSaga_def)
  next
    case (Some p)
    obtain tid req where "p = (tid, req)" by (cases p) auto
    with h Some handler_valid [of r "store s" resp tid req w1]
    show ?thesis by (simp add: startSaga_def)
  qed
next
  case (query s)
  show ?case by simp
next
  case (advance s before tid a rest after)
  show ?case by (simp add: perform_nextID)
qed

lemma transitions_nextID: "rtranclp transition s s' \<Longrightarrow> nextID (store s) \<le> nextID (store s')"
  by (induction rule: rtranclp_induct) (auto dest: transition_nextID)

lemma transitions_reachable: "rtranclp transition s s' \<Longrightarrow> reachable s \<Longrightarrow> reachable s'"
  by (induction rule: rtranclp_induct) (auto intro: reachable.step)

lemma transition_keeps:
  assumes inv: "invariant s" and tr: "transition s s'"
    and tx: "transactions (store s) tid = Some t"
  shows "\<exists>t'. transactions (store s') tid = Some t'"
  using tr inv tx
proof (induction rule: transition.induct)
  case (request s e r)
  obtain resp spawn w1 where h: "createOrderSagaHandler r (store s) = (resp, spawn, w1)"
    by (cases "createOrderSagaHandler r (store s)") auto
  show ?case
  proof (cases spawn)
    case None
    with h have "w1 = store s" by (auto dest: handler_rejects)
    with h None request show ?thesis by (simp add: startSaga_def)
  next
    case (Some p)
    obtain tid' req where "p = (tid', req)" by (cases p) auto
    with h Some handler_valid [of r "store s" resp tid' req w1] request
    show ?thesis by (simp add: startSaga_def)
  qed
next
  case (query s)
  then show ?case by simp
next
  case (advance s before tid' a rest after)
  then show ?case by (simp add: perform_keeps)
qed

lemma transitions_keep:
  "rtranclp transition s s' \<Longrightarrow> invariant s \<Longrightarrow> transactions (store s) tid = Some t \<Longrightarrow>
   invariant s' \<and> (\<exists>t'. transactions (store s') tid = Some t')"
proof (induction rule: rtranclp_induct)
  case base
  then show ?case by simp
next
  case (step y z)
  then have inv: "invariant y" and "\<exists>t'. transactions (store y) tid = Some t'" by simp_all
  then obtain t' where "transactions (store y) tid = Some t'" by blast
  from transition_keeps [OF inv step.hyps(2) this] invariant_transition [OF inv step.hyps(2)]
  show ?case by simp
qed

lemma terminal_stable_step:
  assumes inv: "invariant s" and tr: "transition s s'"
    and tx: "transactions (store s) tid = Some t" and np: "\<not> pending t"
  shows "transactions (store s') tid = Some t"
  using tr inv tx
proof (induction rule: transition.induct)
  case (request s e r)
  obtain resp spawn w1 where h: "createOrderSagaHandler r (store s) = (resp, spawn, w1)"
    by (cases "createOrderSagaHandler r (store s)") auto
  show ?case
  proof (cases spawn)
    case None
    with h have "w1 = store s" by (auto dest: handler_rejects)
    with h None request show ?thesis by (simp add: startSaga_def)
  next
    case (Some p)
    obtain tid' req where p: "p = (tid', req)" by (cases p) auto
    note v = handler_valid [OF h [unfolded Some p]]
    from invariant_fresh_id [OF request(1)] v request(2) have "tid \<noteq> tid'" by auto
    with h Some p v request show ?thesis by (simp add: startSaga_def)
  qed
next
  case (query s)
  then show ?case by simp
next
  case (advance s before tid' a rest after)
  then have "(tid', a # rest) \<in> set (tasks s)" by simp
  from invariant_task [OF advance(2) this]
  obtain u where u: "transactions (store s) tid' = Some u" "sagaRest tid' (a # rest)"
    "pending u" by (auto simp: pending_def)
  with advance(3) np have "tid \<noteq> tid'" by auto
  with sagaRest_other [OF u(2)] advance(3) show ?case by simp
qed

lemma terminal_stable:
  "rtranclp transition s s' \<Longrightarrow> invariant s \<Longrightarrow> transactions (store s) tid = Some t \<Longrightarrow>
   \<not> pending t \<Longrightarrow> invariant s' \<and> transactions (store s') tid = Some t"
proof (induction rule: rtranclp_induct)
  case base
  then show ?case by simp
next
  case (step y z)
  then have inv: "invariant y" and tx: "transactions (store y) tid = Some t" by simp_all
  from terminal_stable_step [OF inv step.hyps(2) tx step.prems(3)]
    invariant_transition [OF inv step.hyps(2)]
  show ?case by simp
qed

lemma reachable_run:
  "reachable \<lparr>store = w, tasks = before @ (tid, as) # after\<rparr> \<Longrightarrow>
   reachable \<lparr>store = fold perform as w, tasks = before @ (tid, []) # after\<rparr>"
proof (induction as arbitrary: w)
  case Nil
  then show ?case by simp
next
  case (Cons a as)
  have "transition \<lparr>store = w, tasks = before @ (tid, a # as) # after\<rparr>
     \<lparr>store = perform a (store \<lparr>store = w, tasks = before @ (tid, a # as) # after\<rparr>),
      tasks = before @ (tid, as) # after\<rparr>"
    by (rule transition.advance) simp
  with Cons.prems have "reachable \<lparr>store = perform a w, tasks = before @ (tid, as) # after\<rparr>"
    by (auto intro: reachable.step)
  from Cons.IH [OF this] show ?case by simp
qed

lemma demoStarted:
  "snd (startSaga envAllOk demoHttp (initial 0)) =
     \<lparr>store = demoWorld, tasks = [(''TRX-1'', sagaActions envAllOk ''TRX-1'' demoRequest)]\<rparr>"
  by (simp add: startSaga_def initial_def demoWorld_def createOrderSagaHandler_def
        demoHttp_def demoRequest_def initWorld_def itoa_1 Let_def)

lemma demoDone_reachable: "reachable demoDone"
proof -
  have "reachable (snd (startSaga envAllOk demoHttp (initial 0)))"
    by (rule reachable.step [OF reachable.init transition.request])
  then have "reachable \<lparr>store = demoWorld,
      tasks = [] @ (''TRX-1'', sagaActions envAllOk ''TRX-1'' demoRequest) # []\<rparr>"
    by (simp add: demoStarted)
  from reachable_run [OF this] show ?thesis
    by (simp add: demoDone_def executeSaga_actions)
qed

subsection \<open>Terminal transactions\<close>

text \<open>
  Claim C6. In every reachable state of the system every stored transaction has status
  PENDING, COMPLETED or FAILED, and its completion time is unset exactly when the status
  is PENDING. A transaction that is COMPLETED or FAILED is the same in every state the
  system reaches afterwards: no start-saga request, status query or action of any saga
  changes it, and a status query for it gives the same reply whenever it is repeated.
\<close>

theorem terminal_status_final:
  assumes "reachable s"
  shows "(\<forall>tid t. transactions (store s) tid = Some t \<longrightarrow>
            (Status t = TransactionStatusPending \<or> Status t = TransactionStatusCompleted
             \<or> Status t = TransactionStatusFailed)
            \<and> (CompletedAt t = ZeroTime \<longleftrightarrow> Status t = TransactionStatusPending))
     \<and> (\<forall>s' tid t. rtranclp transition s s' \<and> transactions (store s) tid = Some t
            \<and> Status t \<noteq> TransactionStatusPending \<longrightarrow>
            transactions (store s') tid = Some t
            \<and> (\<forall>m. transactionStatusHandler m tid (store s') =
                     transactionStatusHandler m tid (store s)))"
proof (intro conjI allI impI)
  note inv = invariant_reachable [OF assms]
  {
    fix tid t
    assume "transactions (store s) tid = Some t"
    from invariant_tx [OF inv this] have w: "wellStatused t" by simp
    then show "Status t = TransactionStatusPending \<or> Status t = TransactionStatusCompleted
             \<or> Status t = TransactionStatusFailed"
      by (auto simp: wellStatused_def)
    from w show "CompletedAt t = ZeroTime \<longleftrightarrow> Status t = TransactionStatusPending"
      by (auto simp: wellStatused_def)
  }
  {
    fix s' tid t m
    assume h: "rtranclp transition s s' \<and> transactions (store s) tid = Some t
            \<and> Status t \<noteq> TransactionStatusPending"
    from h have "\<not> pending t" by (simp add: pending_def)
    with terminal_stable [of s s' tid t] h inv
    show same: "transactions (store s') tid = Some t" by simp
    with h show "transactionStatusHandler m tid (store s') =
                     transactionStatusHandler m tid (store s)"
      by (simp add: transactionStatusHandler_def)
  }
qed

theorem terminal_status_final_witness:
  "reachable demoDone \<and> rtranclp transition demoDone demoNext
   \<and> (\<exists>t. transactions (store demoDone) ''TRX-1'' = Some t
          \<and> Status t = TransactionStatusCompleted \<and> CompletedAt t \<noteq> ZeroTime
          \<and> transactions (store demoNext) ''TRX-1'' = Some t
          \<and> transactionStatusHandler ''GET'' ''TRX-1'' (store demoNext) =
              transactionStatusHandler ''GET'' ''TRX-1'' (store demoDone))"
proof -
  have tr: "rtranclp transition demoDone demoNext"
    unfolding demoNext_def by (rule r_into_rtranclp) (rule transition.request)
  have u: "unstarted ''TRX-1'' demoWorld" by (simp add: unstarted_def demoWorld_eq)
  have ok: "respond envAllOk c = Reply demoReply" "resp_Success demoReply" for c
    by (simp_all add: envAllOk_def demoReply_def)
  have "\<exists>t. transactions (executeSaga envAllOk ''TRX-1'' demoRequest demoWorld) ''TRX-1''
          = Some t \<and> Status t = TransactionStatusCompleted"
    unfolding executeSaga_all_ok [OF u ok ok ok]
    by (simp add: ledgered_def recordOrderID_def updateTransactionStatus_def Let_def
          demoWorld_eq)
  then obtain t where t: "transactions (store demoDone) ''TRX-1'' = Some t"
    "Status t = TransactionStatusCompleted"
    by (auto simp: demoDone_def)
  note final = terminal_status_final [OF demoDone_reachable]
  from final [THEN conjunct1, rule_format, OF t(1)] t(2)
  have c: "CompletedAt t \<noteq> ZeroTime" by simp
  from t tr
  have "rtranclp transition demoDone demoNext
      \<and> transactions (store demoDone) ''TRX-1'' = Some t
      \<and> Status t \<noteq> TransactionStatusPending"
    by simp
  from final [THEN conjunct2, rule_format, OF this]
  have "transactions (store demoNext) ''TRX-1'' = Some t"
    "transactionStatusHandler ''GET'' ''TRX-1'' (store demoNext) =
       transactionStatusHandler ''GET'' ''TRX-1'' (store demoDone)"
    by simp_all
  note this c
  with demoDone_reachable tr t show ?thesis by simp
qed

subsection \<open>Transaction ids\<close>

lemma valid_accepted:
  assumes "http_Method r = ''POST''" and "http_Body r = Some req"
    and "req_CustomerID req \<noteq> []" and "0 < req_Amount req" and "req_Address req \<noteq> []"
  shows "createOrderSagaHandler r w =
     (Json StatusAccepted
        \<lparr>tr_Success = True, tr_Message = ''Transaction initiated successfully'',
         tr_Transaction =
           \<lparr>ID = ''TRX-'' @ itoa (nextID w), OrderID = [], CustomerID = req_CustomerID req,
            Amount = req_Amount req, Address = req_Address req,
            Status = TransactionStatusPending, CreatedAt = At (clock w),
            CompletedAt = ZeroTime, FailureReason = [], Steps = []\<rparr>\<rparr>,
      Some (''TRX-'' @ itoa (nextID w), req),
      w\<lparr>transactions := (transactions w)(''TRX-'' @ itoa (nextID w) \<mapsto>
           \<lparr>ID = ''TRX-'' @ itoa (nextID w), OrderID = [], CustomerID = req_CustomerID req,
            Amount = req_Amount req, Address = req_Address req,
            Status = TransactionStatusPending, CreatedAt = At (clock w),
            CompletedAt = ZeroTime, FailureReason = [], Steps = []\<rparr>),
        nextID := nextID w + 1, clock := Suc (clock w)\<rparr>)"
  using assms by (simp add: createOrderSagaHandler_def Let_def)

lemma startSaga_valid:
  assumes "http_Method r = ''POST''" and "http_Body r = Some req"
    and "req_CustomerID req \<noteq> []" and "0 < req_Amount req" and "req_Address req \<noteq> []"
  shows "\<exists>tr. createOrderSagaHandler r (store s) =
        (Json StatusAccepted tr, Some (ID (tr_Transaction tr), req),
         store (snd (startSaga e r s)))
     \<and> startSaga e r s = (Json StatusAccepted tr, snd (startSaga e r s))"
  by (simp add: startSaga_def valid_accepted [OF assms])

lemma accepted_ids_fresh:
  assumes "reachable s"
    and first: "startSaga e1 r1 s = (Json code1 tr1, s1)"
    and later: "rtranclp transition s1 s2"
    and second: "startSaga e2 r2 s2 = (Json code2 tr2, s3)"
  shows "Status (tr_Transaction tr1) = TransactionStatusPending
     \<and> ID (tr_Transaction tr1) = ''TRX-'' @ itoa (nextID (store s))
     \<and> transactions (store s) (ID (tr_Transaction tr1)) = None
     \<and> Status (tr_Transaction tr2) = TransactionStatusPending
     \<and> ID (tr_Transaction tr2) = ''TRX-'' @ itoa (nextID (store s2))
     \<and> transactions (store s2) (ID (tr_Transaction tr2)) = None
     \<and> transactions (store s2) (ID (tr_Transaction tr1)) \<noteq> None
     \<and> nextID (store s) < nextID (store s2)
     \<and> ID (tr_Transaction tr1) \<noteq> ID (tr_Transaction tr2)"
proof -
  note inv = invariant_reachable [OF assms(1)]
  from startSaga_accepted [OF first]
  have a1: "Status (tr_Transaction tr1) = TransactionStatusPending"
    "ID (tr_Transaction tr1) = ''TRX-'' @ itoa (nextID (store s))"
    "transactions (store s1) (ID (tr_Transaction tr1)) = Some (tr_Transaction tr1)"
    "nextID (store s1) = nextID (store s) + 1"
    by auto
  from startSaga_accepted [OF second]
  have a2: "Status (tr_Transaction tr2) = TransactionStatusPending"
    "ID (tr_Transaction tr2) = ''TRX-'' @ itoa (nextID (store s2))"
    by auto
  have r1: "reachable s1"
    using assms(1) startSaga_snd [OF first] by (rule reachable.step)
  then have r2: "reachable s2" using later by (simp add: transitions_reachable)
  have f1: "transactions (store s) (ID (tr_Transaction tr1)) = None"
    unfolding a1(2) using inv by (rule invariant_fresh_id)
  have f2: "transactions (store s2) (ID (tr_Transaction tr2)) = None"
    unfolding a2(2) using invariant_reachable [OF r2] by (rule invariant_fresh_id)
  from transitions_keep [OF later invariant_reachable [OF r1] a1(3)]
  have k: "transactions (store s2) (ID (tr_Transaction tr1)) \<noteq> None" by auto
  from transitions_nextID [OF later] a1(4)
  have lt: "nextID (store s) < nextID (store s2)" by simp
  from k f2 have ne: "ID (tr_Transaction tr1) \<noteq> ID (tr_Transaction tr2)" by auto
  from a1(1,2) f1 a2 f2 k lt ne show ?thesis by simp
qed

text \<open>
  Claim C8. In a reachable state, a valid start-saga request (a POST whose body decodes,
  with a customer id, a positive amount and an address) is accepted: the handler replies
  with status 202 and a transaction that has status PENDING and the id "TRX-" followed by
  the decimal digits of the counter, an id under which nothing is stored yet. The
  transaction stays stored under that id; a valid start-saga request at any later time
  is accepted too and gets a strictly greater sequence number and a different id.
\<close>

theorem transaction_ids_fresh:
  assumes "reachable s"
    and valid1: "http_Method r1 = ''POST''" "http_Body r1 = Some req1"
      "req_CustomerID req1 \<noteq> []" "0 < req_Amount req1" "req_Address req1 \<noteq> []"
    and later: "rtranclp transition (snd (startSaga e1 r1 s)) s2"
    and valid2: "http_Method r2 = ''POST''" "http_Body r2 = Some req2"
      "req_CustomerID req2 \<noteq> []" "0 < req_Amount req2" "req_Address req2 \<noteq> []"
  shows "\<exists>tr1 tr2.
       createOrderSagaHandler r1 (store s) =
         (Json StatusAccepted tr1, Some (ID (tr_Transaction tr1), req1),
          store (snd (startSaga e1 r1 s)))
     \<and> createOrderSagaHandler r2 (store s2) =
         (Json StatusAccepted tr2, Some (ID (tr_Transaction tr2), req2),
          store (snd (startSaga e2 r2 s2)))
     \<and> Status (tr_Transaction tr1) = TransactionStatusPending
     \<and> ID (tr_Transaction tr1) = ''TRX-'' @ itoa (nextID (store s))
     \<and> transactions (store s) (ID (tr_Transaction tr1)) = None
     \<and> Status (tr_Transaction tr2) = TransactionStatusPending
     \<and> ID (tr_Transaction tr2) = ''TRX-'' @ itoa (nextID (store s2))
     \<and> transactions (store s2) (ID (tr_Transaction tr2)) = None
     \<and> transactions (store s2) (ID (tr_Transaction tr1)) \<noteq> None
     \<and> nextID (store s) < nextID (store s2)
     \<and> ID (tr_Transaction tr1) \<noteq> ID (tr_Transaction tr2)"
proof -
  from startSaga_valid [OF valid1, of s e1]
  obtain tr1 where h1: "createOrderSagaHandler r1 (store s) =
        (Json StatusAccepted tr1, Some (ID (tr_Transaction tr1), req1),
         store (snd (startSaga e1 r1 s)))"
    and first: "startSaga e1 r1 s = (Json StatusAccepted tr1, snd (startSaga e1 r1 s))"
    by blast
  from startSaga_valid [OF valid2, of s2 e2]
  obtain tr2 where h2: "createOrderSagaHandler r2 (store s2) =
        (Json StatusAccepted tr2, Some (ID (tr_Transaction tr2), req2),
         store (snd (startSaga e2 r2 s2)))"
    and second: "startSaga e2 r2 s2 = (Json StatusAccepted tr2, snd (startSaga e2 r2 s2))"
    by blast
  note ids = accepted_ids_fresh [OF assms(1) first later second]
  show ?thesis
    by (rule exI [of _ tr1], rule exI [of _ tr2], rule conjI [OF h1 conjI [OF h2 ids]])
qed

theorem transaction_ids_fresh_witness:
  "\<exists>tr1 tr2.
       createOrderSagaHandler demoHttp (store (initial 0)) =
         (Json StatusAccepted tr1, Some (ID (tr_Transaction tr1), demoRequest),
          store (snd (startSaga envAllOk demoHttp (initial 0))))
     \<and> createOrderSagaHandler demoHttp (store (snd (startSaga envAllOk demoHttp (initial 0)))) =
         (Json StatusAccepted tr2, Some (ID (tr_Transaction tr2), demoRequest),
          store (snd (startSaga envShippingFails demoHttp
                   (snd (startSaga envAllOk demoHttp (initial 0))))))
     \<and> Status (tr_Transaction tr1) = TransactionStatusPending
     \<and> ID (tr_Transaction tr1) = ''TRX-1''
     \<and> Status (tr_Transaction tr2) = TransactionStatusPending
     \<and> ID (tr_Transaction tr2) = ''TRX-2''
     \<and> transactions (store (initial 0)) ''TRX-1'' = None
     \<and> nextID (store (initial 0)) < nextID (store (snd (startSaga envAllOk demoHttp (initial 0))))
     \<and> ID (tr_Transaction tr1) \<noteq> ID (tr_Transaction tr2)"
proof -
  let ?s1 = "snd (startSaga envAllOk demoHttp (initial 0))"
  have v: "http_Method demoHttp = ''POST''" "http_Body demoHttp = Some demoRequest"
    "req_CustomerID demoRequest \<noteq> []" "0 < req_Amount demoRequest"
    "req_Address demoRequest \<noteq> []"
    by (simp_all add: demoHttp_def demoRequest_def)
  have n: "nextID (store (initial 0)) = 1" "nextID (store ?s1) = 2"
    by (simp_all add: startSaga_def createOrderSagaHandler_def demoHttp_def demoRequest_def
          initial_def initWorld_def Let_def)
  have later: "rtranclp transition ?s1 ?s1" by simp
  from transaction_ids_fresh [OF reachable.init v later v, of envShippingFails]
  obtain tr1 tr2 where t:
    "createOrderSagaHandler demoHttp (store (initial 0)) =
         (Json StatusAccepted tr1, Some (ID (tr_Transaction tr1), demoRequest), store ?s1)"
    "createOrderSagaHandler demoHttp (store ?s1) =
         (Json StatusAccepted tr2, Some (ID (tr_Transaction tr2), demoRequest),
          store (snd (startSaga envShippingFails demoHttp ?s1)))"
    "Status (tr_Transaction tr1) = TransactionStatusPending"
    "ID (tr_Transaction tr1) = ''TRX-'' @ itoa (nextID (store (initial 0)))"
    "transactions (store (initial 0)) (ID (tr_Transaction tr1)) = None"
    "Status (tr_Transaction tr2) = TransactionStatusPending"
    "ID (tr_Transaction tr2) = ''TRX-'' @ itoa (nextID (store ?s1))"
    "nextID (store (initial 0)) < nextID (store ?s1)"
    "ID (tr_Transaction tr1) \<noteq> ID (tr_Transaction tr2)"
    by blast
  from t(4) n(1) have id1: "ID (tr_Transaction tr1) = ''TRX-1''" by (simp add: itoa_1)
  from t(7) n(2) have id2: "ID (tr_Transaction tr2) = ''TRX-2''" by (simp add: itoa_2)
  from t(5) id1 have none: "transactions (store (initial 0)) ''TRX-1'' = None" by simp
  from t(1,2,3,6,8,9) id1 id2 none
  show ?thesis by (intro exI [of _ tr1] exI [of _ tr2]) simp
qed

subsection \<open>A saga interleaved with other goroutines\<close>

text \<open>
  The properties of claims C1, C2 and C5 are stated for \<open>executeSaga\<close> running alone on
  the state the handler leaves. In the running system the actions of a saga are interleaved
  with requests and with the actions of other sagas. The lemmas below show that this
  makes no difference to the transaction of the saga, timestamp values apart: when a saga
  has finished, its transaction agrees with the one \<open>executeSaga\<close> leaves when run alone
  on the state in which the saga was started.
\<close>

lemma updateStepLoop_same:
  "list_all2 sameStep xs ys \<Longrightarrow>
   list_all2 sameStep (updateStepLoop n ok err (At c) xs) (updateStepLoop n ok err (At c') ys)"
proof (induction rule: list_all2_induct)
  case Nil
  then show ?case by simp
next
  case (Cons x xs y ys)
  then show ?case by (auto simp: sameStep_def)
qed

lemma sameLedger_refl: "sameLedger t t"
  by (simp add: sameLedger_def sameStep_def list_all2_refl)

lemma perform_same:
  assumes "rel_option sameLedger (transactions w tid) (transactions w' tid)"
  shows "rel_option sameLedger (transactions (perform a w) tid) (transactions (perform a w') tid)"
proof (cases a)
  case (AddStep t n)
  with assms show ?thesis
    by (cases "transactions w tid"; cases "transactions w' tid")
       (auto simp: addStep_def sameLedger_def sameStep_def list_all2_appendI
          split: option.splits)
next
  case (Post c)
  with assms show ?thesis by (simp add: httpPost_def)
next
  case (UpdateStepStatus t n ok err)
  with assms show ?thesis
    by (cases "transactions w tid"; cases "transactions w' tid")
       (auto simp: updateStepStatus_def sameLedger_def updateStepLoop_same
          split: option.splits)
next
  case (RecordOrderID t oid)
  with assms show ?thesis
    by (cases "transactions w tid"; cases "transactions w' tid")
       (auto simp: recordOrderID_def sameLedger_def zeroTransaction_def Let_def
          split: option.splits)
next
  case (UpdateTransactionStatus t st r)
  with assms show ?thesis
    by (cases "transactions w tid"; cases "transactions w' tid")
       (auto simp: updateTransactionStatus_def sameLedger_def Let_def
          split: option.splits)
qed


lemma rel_option_sameLedger_refl: "rel_option sameLedger x x"
  by (cases x) (simp_all add: sameLedger_refl)

lemma task_unique:
  "distinct (map fst xs) \<Longrightarrow> (k, v) \<in> set xs \<Longrightarrow> (k, v') \<in> set xs \<Longrightarrow> v = v'"
  by (rule eq_key_imp_eq_value)

lemma request_frame:
  assumes inv: "invariant y" and tx: "transactions (store y) tid = Some t"
  shows "transactions (store (snd (startSaga e r y))) tid = Some t
     \<and> set (tasks y) \<subseteq> set (tasks (snd (startSaga e r y)))"
proof -
  obtain resp spawn w1 where h: "createOrderSagaHandler r (store y) = (resp, spawn, w1)"
    by (cases "createOrderSagaHandler r (store y)") auto
  show ?thesis
  proof (cases spawn)
    case None
    with h have "w1 = store y" by (auto dest: handler_rejects)
    with h None tx show ?thesis by (simp add: startSaga_def)
  next
    case (Some p)
    obtain tid' req where p: "p = (tid', req)" by (cases p) auto
    note v = handler_valid [OF h [unfolded Some p]]
    from invariant_fresh_id [OF inv] v tx have "tid \<noteq> tid'" by auto
    with h Some p v tx show ?thesis by (auto simp: startSaga_def)
  qed
qed

lemma saga_run_interleaved:
  assumes run: "rtranclp transition s1 s2"
    and reach: "reachable s1"
    and task: "(tid, sagaActions e tid req) \<in> set (tasks s1)"
  shows "\<exists>past rest. (tid, rest) \<in> set (tasks s2) \<and> past @ rest = sagaActions e tid req
     \<and> rel_option sameLedger (transactions (store s2) tid)
          (transactions (fold perform past (store s1)) tid)"
  using run
proof (induction rule: rtranclp_induct)
  case base
  have "(tid, sagaActions e tid req) \<in> set (tasks s1)
     \<and> [] @ sagaActions e tid req = sagaActions e tid req
     \<and> rel_option sameLedger (transactions (store s1) tid)
          (transactions (fold perform [] (store s1)) tid)"
    using task by (simp add: rel_option_sameLedger_refl)
  then show ?case by blast
next
  case (step y z)
  then obtain past rest where ih: "(tid, rest) \<in> set (tasks y)"
    "past @ rest = sagaActions e tid req"
    "rel_option sameLedger (transactions (store y) tid)
          (transactions (fold perform past (store s1)) tid)"
    by blast
  have inv: "invariant y"
    using transitions_reachable [OF step.hyps(1) reach] by (rule invariant_reachable)
  from invariant_task [OF inv ih(1)] obtain t where t: "transactions (store y) tid = Some t"
    by blast
  from step.hyps(2) show ?case
  proof (cases rule: transition.cases)
    case (request e' r')
    from request_frame [OF inv t, of e' r'] ih(1) request
    have "(tid, rest) \<in> set (tasks z)" "transactions (store z) tid = transactions (store y) tid"
      using t by auto
    with ih(2,3) show ?thesis by auto
  next
    case query
    with ih show ?thesis by auto
  next
    case (advance before tid' a rest' after)
    show ?thesis
    proof (cases "tid' = tid")
      case True
      have "(tid, a # rest') \<in> set (tasks y)" using advance True by simp
      from task_unique [OF invariant_distinct [OF inv] ih(1) this]
      have rest: "rest = a # rest'" .
      have 1: "(tid, rest') \<in> set (tasks z)" using advance True by simp
      have 2: "(past @ [a]) @ rest' = sagaActions e tid req" using ih(2) rest by simp
      have 3: "rel_option sameLedger (transactions (store z) tid)
          (transactions (fold perform (past @ [a]) (store s1)) tid)"
        using perform_same [OF ih(3), of a] advance by simp
      from 1 2 3 show ?thesis by blast
    next
      case False
      have mem: "(tid', a # rest') \<in> set (tasks y)" using advance by simp
      from invariant_task [OF inv mem] have sr: "sagaRest tid' (a # rest')" by auto
      from False have "tid \<noteq> tid'" by simp
      from sagaRest_other [OF sr this, of "store y"] advance
      have same: "transactions (store z) tid = transactions (store y) tid" by simp
      from ih(1) advance False have "(tid, rest) \<in> set (tasks z)" by auto
      with same ih(2,3) show ?thesis by auto
    qed
  qed
qed

lemma saga_finished_interleaved:
  assumes run: "rtranclp transition s1 s2"
    and reach: "reachable s1"
    and task: "(tid, sagaActions e tid req) \<in> set (tasks s1)"
    and finished: "(tid, []) \<in> set (tasks s2)"
  shows "rel_option sameLedger (transactions (store s2) tid)
           (transactions (executeSaga e tid req (store s1)) tid)"
proof -
  from saga_run_interleaved [OF run reach task]
  obtain past rest where d: "(tid, rest) \<in> set (tasks s2)"
    "past @ rest = sagaActions e tid req"
    "rel_option sameLedger (transactions (store s2) tid)
          (transactions (fold perform past (store s1)) tid)"
    by blast
  have "invariant s2"
    using transitions_reachable [OF run reach] by (rule invariant_reachable)
  from task_unique [OF invariant_distinct [OF this] d(1) finished]
  have "rest = []" .
  with d(2,3) show ?thesis by (simp add: executeSaga_actions)
qed

end
